theory Spec2Isabelle
  imports Main "HOL-Library.Multiset" "HOL-Library.AList"
begin

section \<open>Symbols\<close>

text \<open>
  Modelled from the spec: \<^verbatim>\<open>symbol.ts\<close>, which declares \<^verbatim>\<open>SymbolKind\<close>,
  \<^verbatim>\<open>SymbolModifier\<close> and \<^verbatim>\<open>PhpSymbol\<close>, is not among the sources. The spec gives the kinds as
  a closed enumeration and the modifiers as a bit set. The sources test them with masks:
  \<^verbatim>\<open>(s.kind & mask) > 0\<close> is membership of the kind in the set of kinds the mask lists, and
  \<^verbatim>\<open>s.modifiers & M\<close> is membership of \<open>M\<close> in the modifier set. The kind \<^verbatim>\<open>None\<close> and the
  merge strategy \<^verbatim>\<open>None\<close> are written \<open>NoneKind\<close> and \<open>NoneStrategy\<close>.
\<close>

datatype SymbolKind =
  NoneKind | Class | Interface | Trait | Constant | Property | Method | Function
  | Parameter | Variable | Namespace | ClassConstant | Constructor | File

datatype SymbolModifier =
  Public | Protected | Private | Static | Abstract | Final | Anonymous | Magic | Use

text \<open>
  The errors of the source: a \<^verbatim>\<open>TypeError\<close> of the runtime (a property read of
  \<^verbatim>\<open>undefined\<close>), the \<^verbatim>\<open>Invalid Argument\<close> error of the type aggregate, and the
  \<^verbatim>\<open>Duplicate key\<close> error that the historical \<^verbatim>\<open>SymbolStore.add\<close> threw for a URI that
  was already registered.
\<close>

datatype error = TypeError | InvalidArgument | DuplicateKey

record Position =
  line :: nat
  character :: nat

record Range =
  range_start :: Position
  range_end :: Position

record HashedLocation =
  loc_uriHash :: nat
  loc_range :: Range

record HashedStartLocation =
  uriHash :: nat
  start :: Position

record PhpSymbolDoc =
  description :: string

text \<open>An entry of \<^verbatim>\<open>associated\<close>: an unresolved reference to a type, by kind and name.\<close>

record AssociatedStub =
  stub_kind :: SymbolKind
  stub_name :: string

text \<open>
  Modelled from the spec: the fields of a \<^verbatim>\<open>PhpSymbol\<close> other than its children, with the
  \<^verbatim>\<open>doc\<close> field that \<^verbatim>\<open>_mergeMembers\<close> reads. \<open>oid\<close> is the identity of the
  JavaScript object: the source compares symbols with \<^verbatim>\<open>===\<close>, \<^verbatim>\<open>indexOf\<close> and \<^verbatim>\<open>Set\<close>, all
  by object identity, and two distinct objects carry distinct \<open>oid\<close>s. An absent
  \<^verbatim>\<open>children\<close> or \<^verbatim>\<open>associated\<close> array is the empty list (the source treats both alike), an
  absent \<^verbatim>\<open>modifiers\<close> the empty set.
\<close>

record SymbolData =
  oid :: nat
  kind :: SymbolKind
  name :: string
  modifiers :: "SymbolModifier set"
  scope :: "string option"
  type :: "string option"
  associated :: "AssociatedStub list"
  location :: "HashedLocation option"
  doc :: "PhpSymbolDoc option"

datatype PhpSymbol = PhpSymbol (data: SymbolData) (children: "PhpSymbol list")

definition isClassLike :: "PhpSymbol \<Rightarrow> bool" where
  "isClassLike s = (kind (data s) \<in> {Class, Interface, Trait})"

section \<open>Strings and the runtime\<close>

text \<open>
  \<^verbatim>\<open>String.prototype.toLowerCase\<close> and \<^verbatim>\<open>String.prototype.trim\<close> belong to the JavaScript
  runtime and work on all of Unicode, and \<^verbatim>\<open>uriMap.id\<close> is not among the sources. The model
  takes the three as the fields of a parameter \<open>rt\<close> of every operation that calls one of
  them, so that what is proved holds for the functions of the runtime, whatever they are.
\<close>

record Runtime =
  uriMap_id :: "string \<Rightarrow> nat"
  toLowerCase :: "string \<Rightarrow> string"
  trim :: "string \<Rightarrow> string"

text \<open>
  The functions used in the examples: on strings of ASCII characters they are the functions of
  the runtime.
\<close>

definition lower_char :: "char \<Rightarrow> char" where
  "lower_char c =
     (case map_of (zip ''ABCDEFGHIJKLMNOPQRSTUVWXYZ'' ''abcdefghijklmnopqrstuvwxyz'') c of
        None \<Rightarrow> c | Some d \<Rightarrow> d)"

definition ascii_toLowerCase :: "string \<Rightarrow> string" where
  "ascii_toLowerCase s = map lower_char s"

definition is_space :: "char \<Rightarrow> bool" where
  "is_space c = (c \<in> set [CHR '' '', CHR 0x09, CHR 0x0A, CHR 0x0B, CHR 0x0C, CHR 0x0D])"

definition ascii_trim :: "string \<Rightarrow> string" where
  "ascii_trim s = rev (dropWhile is_space (rev (dropWhile is_space s)))"

text \<open>\<^verbatim>\<open>String.prototype.split\<close> on a separator of one character.\<close>

fun String_split :: "char \<Rightarrow> string \<Rightarrow> string list" where
  "String_split sep [] = [[]]"
| "String_split sep (c # cs) =
     (if c = sep then [] # String_split sep cs
      else (case String_split sep cs of [] \<Rightarrow> [[c]] | w # ws \<Rightarrow> (c # w) # ws))"

definition backslash :: char where
  "backslash = CHR 0x5C"

section \<open>Tree traversal and the name index\<close>

text \<open>
  Modelled from the spec: \<^verbatim>\<open>TreeTraverser\<close> of the current \<^verbatim>\<open>types.ts\<close> is not among the
  sources. The spec describes a generic pre-order walk; \<open>toArray\<close> lists the nodes in that
  order and \<open>TreeTraverser_count\<close> counts them.
\<close>

fun toArray :: "PhpSymbol \<Rightarrow> PhpSymbol list" where
  "toArray (PhpSymbol d cs) = PhpSymbol d cs # concat (map toArray cs)"

definition TreeTraverser_count :: "PhpSymbol \<Rightarrow> nat" where
  "TreeTraverser_count r = length (toArray r)"

text \<open>
  Modelled from the spec: \<^verbatim>\<open>FindByStartPositionTraverser\<close> is not among the sources. The spec
  resolves a stub by a search of the owning table by start position; the model returns the
  first node, in pre-order, whose location starts at the position.
\<close>

definition startsAt :: "Position \<Rightarrow> PhpSymbol \<Rightarrow> bool" where
  "startsAt pos n =
     (case location (data n) of None \<Rightarrow> False | Some l \<Rightarrow> range_start (loc_range l) = pos)"

definition FindByStartPositionTraverser_find :: "Position \<Rightarrow> PhpSymbol \<Rightarrow> PhpSymbol option" where
  "FindByStartPositionTraverser_find pos r = List.find (startsAt pos) (toArray r)"

text \<open>
  Modelled from the spec: \<^verbatim>\<open>NameIndex\<close> is not among the sources. It is a multimap from
  keys to location stubs: \<open>add\<close> inserts the stub into every key's bucket, \<open>remove\<close> is
  symmetric, \<open>find\<close> returns the bucket of the case-folded text and \<open>match\<close> the union of the
  buckets whose key starts with the case-folded prefix, the case folding being the
  \<^verbatim>\<open>toLowerCase\<close> of the runtime. The spec does not fix the order in which \<open>match\<close> lists
  the buckets; the model keeps the keys in insertion order.
\<close>

type_synonym NameIndex = "(string \<times> HashedStartLocation list) list"

definition bucket :: "NameIndex \<Rightarrow> string \<Rightarrow> HashedStartLocation list" where
  "bucket idx k = (case map_of idx k of None \<Rightarrow> [] | Some b \<Rightarrow> b)"

definition NameIndex_add_key :: "HashedStartLocation \<Rightarrow> string \<Rightarrow> NameIndex \<Rightarrow> NameIndex" where
  "NameIndex_add_key item k idx =
     (case map_of idx k of
        None \<Rightarrow> idx @ [(k, [item])]
      | Some b \<Rightarrow> AList.update k (b @ [item]) idx)"

definition NameIndex_add :: "HashedStartLocation \<Rightarrow> string list \<Rightarrow> NameIndex \<Rightarrow> NameIndex" where
  "NameIndex_add item ks idx = fold (NameIndex_add_key item) ks idx"

definition NameIndex_remove_key :: "HashedStartLocation \<Rightarrow> string \<Rightarrow> NameIndex \<Rightarrow> NameIndex" where
  "NameIndex_remove_key item k idx =
     (case map_of idx k of
        None \<Rightarrow> idx
      | Some b \<Rightarrow> AList.update k (remove1 item b) idx)"

definition NameIndex_remove :: "HashedStartLocation \<Rightarrow> string list \<Rightarrow> NameIndex \<Rightarrow> NameIndex" where
  "NameIndex_remove item ks idx = fold (NameIndex_remove_key item) ks idx"

definition NameIndex_find :: "Runtime \<Rightarrow> NameIndex \<Rightarrow> string \<Rightarrow> HashedStartLocation list" where
  "NameIndex_find rt idx text = bucket idx (toLowerCase rt text)"

definition startsWith :: "string \<Rightarrow> string \<Rightarrow> bool" where
  "startsWith k p = (take (length p) k = p)"

definition NameIndex_match :: "Runtime \<Rightarrow> NameIndex \<Rightarrow> string \<Rightarrow> HashedStartLocation list" where
  "NameIndex_match rt idx text =
     concat (map snd (filter (\<lambda>kb. startsWith (fst kb) (toLowerCase rt text)) idx))"

section \<open>Index items of a symbol\<close>

text \<open>
  Modelled from the spec: \<^verbatim>\<open>PhpSymbol.keys\<close> is not among the sources. By the spec the key
  of a symbol that is not a namespace is its full case-folded name.
\<close>

definition PhpSymbol_keys :: "Runtime \<Rightarrow> PhpSymbol \<Rightarrow> string list" where
  "PhpSymbol_keys rt s = [toLowerCase rt (name (data s))]"

text \<open>
  \<^verbatim>\<open>KeyedHashedStartLocation.keys\<close>. For a namespace the source builds a \<^verbatim>\<open>Set\<close> holding the
  lower-cased name and then calls \<^verbatim>\<open>Set.prototype.add.apply(keys, segments)\<close>: \<^verbatim>\<open>apply\<close>
  spreads the segments as the arguments of one call of \<^verbatim>\<open>add\<close>, which reads its first
  argument only, so the first non-empty segment is the one added. With no non-empty segment
  (a name of separators only) the call adds \<^verbatim>\<open>undefined\<close>, and the source hands the keys
  \<^verbatim>\<open>[name, undefined]\<close> to the index; the model gives the name alone and so does not cover
  what the index does with that second key.
\<close>

record KeyedHashedStartLocation =
  keys :: "string list"
  start_location :: HashedStartLocation

definition KeyedHashedStartLocation_keys :: "Runtime \<Rightarrow> PhpSymbol \<Rightarrow> string list" where
  "KeyedHashedStartLocation_keys rt s =
     (if kind (data s) = Namespace then
        (let lcName = toLowerCase rt (name (data s)) in
         case filter (\<lambda>seg. length seg > 0) (String_split backslash lcName) of
           [] \<Rightarrow> [lcName]
         | seg # _ \<Rightarrow> (if seg = lcName then [lcName] else [lcName, seg]))
      else PhpSymbol_keys rt s)"

definition KeyedHashedStartLocation_create :: "Runtime \<Rightarrow> PhpSymbol \<Rightarrow> error + KeyedHashedStartLocation" where
  "KeyedHashedStartLocation_create rt s =
     (case location (data s) of
        None \<Rightarrow> Inl TypeError
      | Some l \<Rightarrow>
          Inr \<lparr>keys = KeyedHashedStartLocation_keys rt s,
               start_location = \<lparr>uriHash = loc_uriHash l, start = range_start (loc_range l)\<rparr>\<rparr>)"

text \<open>The test of \<^verbatim>\<open>IndexableSymbolVisitor.preorder\<close>.\<close>

definition indexable :: "PhpSymbol \<Rightarrow> bool" where
  "indexable node =
     (kind (data node) \<notin> {Parameter, File, Variable}
      \<and> Use \<notin> modifiers (data node)
      \<and> length (name (data node)) > 0)"

text \<open>
  The visitor over the nodes in pre-order: it always descends, so it sees every node of
  the tree. Reading \<^verbatim>\<open>s.location.uriHash\<close> of a node without a location is a TypeError,
  which leaves the traversal.
\<close>

fun IndexableSymbolVisitor_items :: "Runtime \<Rightarrow> PhpSymbol list \<Rightarrow> error + KeyedHashedStartLocation list" where
  "IndexableSymbolVisitor_items rt [] = Inr []"
| "IndexableSymbolVisitor_items rt (node # nodes) =
     (if indexable node then
        (case KeyedHashedStartLocation_create rt node of
           Inl e \<Rightarrow> Inl e
         | Inr item \<Rightarrow>
             (case IndexableSymbolVisitor_items rt nodes of
                Inl e \<Rightarrow> Inl e
              | Inr items \<Rightarrow> Inr (item # items)))
      else IndexableSymbolVisitor_items rt nodes)"

section \<open>Symbol table\<close>

record SymbolTable =
  uri :: string
  root :: PhpSymbol

definition SymbolTable_symbols :: "SymbolTable \<Rightarrow> PhpSymbol list" where
  "SymbolTable_symbols t = tl (toArray (root t))"

definition SymbolTable_symbolCount :: "SymbolTable \<Rightarrow> int" where
  "SymbolTable_symbolCount t = int (TreeTraverser_count (root t)) - 1"

text \<open>
  \<^verbatim>\<open>ScopedVariablePruneVisitor\<close>: at a function or method the children of kind Variable are
  dropped, then the walk descends into the children that are left.
\<close>

function ScopedVariablePruneVisitor :: "PhpSymbol \<Rightarrow> PhpSymbol" where
  "ScopedVariablePruneVisitor (PhpSymbol d cs) =
     PhpSymbol d (map ScopedVariablePruneVisitor
       (if kind d = Function \<or> kind d = Method
        then filter (\<lambda>s. kind (data s) \<noteq> Variable) cs else cs))"
  by pat_completeness auto
termination
  by (relation "measure size") (auto split: if_splits simp: less_Suc_eq_le size_list_estimation')

definition pruneScopedVars :: "SymbolTable \<Rightarrow> SymbolTable" where
  "pruneScopedVars t = t\<lparr>root := ScopedVariablePruneVisitor (root t)\<rparr>"

definition SymbolTable_indexItems :: "Runtime \<Rightarrow> SymbolTable \<Rightarrow> error + KeyedHashedStartLocation list" where
  "SymbolTable_indexItems rt t = IndexableSymbolVisitor_items rt (toArray (root t))"

section \<open>Symbol store\<close>

text \<open>
  \<^verbatim>\<open>uriMap.id\<close> is not among the sources; every operation that calls it reads it from the
  runtime \<open>rt\<close>. An exception leaves the operation: the result is \<open>Inl\<close> of the error and
  the store is not used afterwards.
\<close>

record SymbolStore =
  tableIndex :: "nat \<rightharpoonup> SymbolTable"
  symbolIndex :: NameIndex
  symbolCount :: int

definition SymbolStore_new :: SymbolStore where
  "SymbolStore_new = \<lparr>tableIndex = Map.empty, symbolIndex = [], symbolCount = 0\<rparr>"

definition getSymbolTable :: "Runtime \<Rightarrow> SymbolStore \<Rightarrow> string \<Rightarrow> SymbolTable option" where
  "getSymbolTable rt st u = tableIndex st (uriMap_id rt u)"

definition index_addItems :: "KeyedHashedStartLocation list \<Rightarrow> NameIndex \<Rightarrow> NameIndex" where
  "index_addItems items idx = fold (\<lambda>it. NameIndex_add (start_location it) (keys it)) items idx"

definition index_removeItems :: "KeyedHashedStartLocation list \<Rightarrow> NameIndex \<Rightarrow> NameIndex" where
  "index_removeItems items idx = fold (\<lambda>it. NameIndex_remove (start_location it) (keys it)) items idx"

definition SymbolStore_remove :: "Runtime \<Rightarrow> SymbolStore \<Rightarrow> string \<Rightarrow> error + SymbolStore" where
  "SymbolStore_remove rt st u =
     (let id = uriMap_id rt u in
      case tableIndex st id of
        None \<Rightarrow> Inr st
      | Some symbolTable \<Rightarrow>
          (case SymbolTable_indexItems rt symbolTable of
             Inl e \<Rightarrow> Inl e
           | Inr indexItems \<Rightarrow>
               Inr \<lparr>tableIndex = (tableIndex st)(id := None),
                    symbolIndex = index_removeItems indexItems (symbolIndex st),
                    symbolCount = symbolCount st - SymbolTable_symbolCount symbolTable\<rparr>))"

definition SymbolStore_add :: "Runtime \<Rightarrow> SymbolStore \<Rightarrow> SymbolTable \<Rightarrow> error + SymbolStore" where
  "SymbolStore_add rt st symbolTable =
     (case SymbolStore_remove rt st (uri symbolTable) of
        Inl e \<Rightarrow> Inl e
      | Inr st1 \<Rightarrow>
          (let id = uriMap_id rt (uri symbolTable) in
           case SymbolTable_indexItems rt symbolTable of
             Inl e \<Rightarrow> Inl e
           | Inr indexItems \<Rightarrow>
               Inr \<lparr>tableIndex = (tableIndex st1)(id \<mapsto> symbolTable),
                    symbolIndex = index_addItems indexItems (symbolIndex st1),
                    symbolCount = symbolCount st1 + SymbolTable_symbolCount symbolTable\<rparr>))"

text \<open>
  \<^verbatim>\<open>closeDocument\<close> of \<^verbatim>\<open>intelephense.ts\<close>: the table registered for the URI, if there is
  one, is pruned in place.
\<close>

definition closeDocument :: "Runtime \<Rightarrow> SymbolStore \<Rightarrow> string \<Rightarrow> SymbolStore" where
  "closeDocument rt st u =
     (case getSymbolTable rt st u of
        None \<Rightarrow> st
      | Some symbolTable \<Rightarrow> st\<lparr>tableIndex := (tableIndex st)(uriMap_id rt u \<mapsto> pruneScopedVars symbolTable)\<rparr>)"

text \<open>A JavaScript \<^verbatim>\<open>Set\<close> as the list of its elements in insertion order.\<close>

definition Set_add :: "'a list \<Rightarrow> 'a \<Rightarrow> 'a list" where
  "Set_add xs x = (if x \<in> set xs then xs else xs @ [x])"

text \<open>
  \<^verbatim>\<open>_indexResultToSymbols\<close>: reading \<^verbatim>\<open>table.root\<close> when no table is registered under the
  stub's hash is a TypeError.
\<close>

fun indexResultToSymbols_loop ::
  "SymbolStore \<Rightarrow> HashedStartLocation list \<Rightarrow> PhpSymbol list \<Rightarrow> error + PhpSymbol list" where
  "indexResultToSymbols_loop st [] symbols = Inr symbols"
| "indexResultToSymbols_loop st (item # results) symbols =
     (case tableIndex st (uriHash item) of
        None \<Rightarrow> Inl TypeError
      | Some table \<Rightarrow>
          (case FindByStartPositionTraverser_find (start item) (root table) of
             None \<Rightarrow> indexResultToSymbols_loop st results symbols
           | Some s \<Rightarrow> indexResultToSymbols_loop st results (Set_add symbols s)))"

definition indexResultToSymbols :: "SymbolStore \<Rightarrow> HashedStartLocation list \<Rightarrow> error + PhpSymbol list" where
  "indexResultToSymbols st results = indexResultToSymbols_loop st results []"

definition passes :: "('a \<Rightarrow> bool) option \<Rightarrow> 'a \<Rightarrow> bool" where
  "passes fltr s = (case fltr of None \<Rightarrow> True | Some f \<Rightarrow> f s)"

definition find_accepts :: "Runtime \<Rightarrow> string \<Rightarrow> PhpSymbol \<Rightarrow> bool" where
  "find_accepts rt text s =
     ((kind (data s) \<in> {Constant, Variable} \<and> name (data s) = text)
      \<or> (kind (data s) \<notin> {Constant, Variable}
          \<and> toLowerCase rt (name (data s)) = toLowerCase rt text))"

definition SymbolStore_find ::
  "Runtime \<Rightarrow> SymbolStore \<Rightarrow> string \<Rightarrow> (PhpSymbol \<Rightarrow> bool) option \<Rightarrow> error + PhpSymbol list" where
  "SymbolStore_find rt st text fltr =
     (if text = [] then Inr []
      else
        (case indexResultToSymbols st (NameIndex_find rt (symbolIndex st) text) of
           Inl e \<Rightarrow> Inl e
         | Inr result \<Rightarrow> Inr (List.filter (\<lambda>s. passes fltr s \<and> find_accepts rt text s) result)))"

definition SymbolStore_match ::
  "Runtime \<Rightarrow> SymbolStore \<Rightarrow> string \<Rightarrow> (PhpSymbol \<Rightarrow> bool) option \<Rightarrow> error + PhpSymbol list" where
  "SymbolStore_match rt st text fltr =
     (if text = [] then Inr []
      else
        (case indexResultToSymbols st (NameIndex_match rt (symbolIndex st) text) of
           Inl e \<Rightarrow> Inl e
         | Inr matches \<Rightarrow>
             (case fltr of
                None \<Rightarrow> Inr matches
              | Some f \<Rightarrow> Inr (List.filter f matches))))"

section \<open>Symbols that the index resolves to\<close>

text \<open>
  The symbols some stub of the index resolves to. Every symbol that \<open>find\<close> returns is one of
  them, and there are finitely many: this bounds the closure computed by the type
  aggregate.
\<close>

definition resolveStub :: "SymbolStore \<Rightarrow> HashedStartLocation \<Rightarrow> PhpSymbol option" where
  "resolveStub st item =
     (case tableIndex st (uriHash item) of
        None \<Rightarrow> None
      | Some table \<Rightarrow> FindByStartPositionTraverser_find (start item) (root table))"

definition index_symbols :: "SymbolStore \<Rightarrow> PhpSymbol set" where
  "index_symbols st =
     (\<Union>kb \<in> set (symbolIndex st). \<Union>item \<in> set (snd kb). set_option (resolveStub st item))"

lemma finite_index_symbols: "finite (index_symbols st)"
  by (simp add: index_symbols_def)

lemma set_Set_add: "set (Set_add xs x) = insert x (set xs)"
  by (auto simp: Set_add_def)

lemma distinct_Set_add: "distinct xs \<Longrightarrow> distinct (Set_add xs x)"
  by (simp add: Set_add_def)

lemma indexResultToSymbols_loop_char:
  "map_sum id set (indexResultToSymbols_loop st items acc) =
     (if \<forall>i \<in> set items. tableIndex st (uriHash i) \<noteq> None
      then Inr (set acc \<union> (\<Union>item \<in> set items. set_option (resolveStub st item)))
      else Inl TypeError)"
proof (induction items arbitrary: acc)
  case Nil
  then show ?case by simp
next
  case (Cons item items)
  show ?case
  proof (cases "tableIndex st (uriHash item)")
    case None
    then show ?thesis by simp
  next
    case (Some table)
    show ?thesis
    proof (cases "FindByStartPositionTraverser_find (start item) (root table)")
      case None
      with Some Cons.IH [of acc] show ?thesis
        by (simp add: resolveStub_def)
    next
      case (Some s)
      with \<open>tableIndex st (uriHash item) = Some table\<close> Cons.IH [of "Set_add acc s"] show ?thesis
        by (auto simp: resolveStub_def set_Set_add)
    qed
  qed
qed

lemma indexResultToSymbols_loop_distinct:
  "indexResultToSymbols_loop st items acc = Inr r \<Longrightarrow> distinct acc \<Longrightarrow> distinct r"
proof (induction items arbitrary: acc)
  case Nil
  then show ?case by simp
next
  case (Cons item items)
  then show ?case
    by (auto split: option.splits intro: distinct_Set_add)
qed

lemma bucket_subset: "item \<in> set (bucket idx k) \<Longrightarrow> \<exists>kb \<in> set idx. item \<in> set (snd kb)"
proof -
  assume a: "item \<in> set (bucket idx k)"
  then obtain b where b: "map_of idx k = Some b" and i: "item \<in> set b"
    by (cases "map_of idx k") (auto simp: bucket_def)
  from map_of_SomeD [OF b] i show ?thesis by force
qed

lemma SymbolStore_find_char:
  "map_sum id set (SymbolStore_find rt st text fltr) =
     (if text = [] then Inr {}
      else if \<forall>i \<in> set (bucket (symbolIndex st) (toLowerCase rt text)).
                tableIndex st (uriHash i) \<noteq> None
      then Inr {s \<in> (\<Union>item \<in> set (bucket (symbolIndex st) (toLowerCase rt text)).
                        set_option (resolveStub st item)). passes fltr s \<and> find_accepts rt text s}
      else Inl TypeError)"
proof (cases "text = []")
  case True
  then show ?thesis by (simp add: SymbolStore_find_def)
next
  case False
  note c = indexResultToSymbols_loop_char [of st "bucket (symbolIndex st) (toLowerCase rt text)" "[]"]
  show ?thesis
  proof (cases "indexResultToSymbols_loop st (bucket (symbolIndex st) (toLowerCase rt text)) []")
    case (Inl e)
    with c False show ?thesis
      by (auto simp: SymbolStore_find_def indexResultToSymbols_def NameIndex_find_def
          split: if_splits)
  next
    case (Inr r)
    with c False show ?thesis
      by (auto simp: SymbolStore_find_def indexResultToSymbols_def NameIndex_find_def
          split: if_splits)
  qed
qed

lemma SymbolStore_find_subset:
  assumes "SymbolStore_find rt st text fltr = Inr rs"
  shows "set rs \<subseteq> index_symbols st"
proof -
  from SymbolStore_find_char [of rt st "text" fltr] assms
  have "set rs \<subseteq> (\<Union>item \<in> set (bucket (symbolIndex st) (toLowerCase rt text)).
                    set_option (resolveStub st item))"
    by (auto split: if_splits)
  then show ?thesis
    by (fastforce simp: index_symbols_def dest!: bucket_subset)
qed

section \<open>Type aggregate\<close>

datatype MemberMergeStrategy = NoneStrategy | Override | Documented | Base

record TypeAggregate =
  symbolStore :: SymbolStore
  symbol :: PhpSymbol
  excludeTraits :: bool

text \<open>The constructor; an absent symbol (\<^verbatim>\<open>null\<close> or \<^verbatim>\<open>undefined\<close>) is \<open>None\<close>.\<close>

definition TypeAggregate_new :: "SymbolStore \<Rightarrow> PhpSymbol option \<Rightarrow> bool \<Rightarrow> error + TypeAggregate" where
  "TypeAggregate_new st symb ex =
     (case symb of
        None \<Rightarrow> Inl InvalidArgument
      | Some s \<Rightarrow>
          (if \<not> isClassLike s then Inl InvalidArgument
           else Inr \<lparr>symbolStore = st, symbol = s, excludeTraits = ex\<rparr>))"

text \<open>
  The loop of \<^verbatim>\<open>_getAssociated\<close>: \<open>queue\<close> holds the stubs still to resolve, \<open>assoc\<close> the
  symbols resolved so far. The cache \<^verbatim>\<open>_associated\<close> only saves a second computation and
  is not modelled.
\<close>

function getAssociated_loop ::
  "Runtime \<Rightarrow> SymbolStore \<Rightarrow> bool \<Rightarrow> AssociatedStub list \<Rightarrow> PhpSymbol list \<Rightarrow> error + PhpSymbol list" where
  "getAssociated_loop rt st ex [] assoc = Inr assoc"
| "getAssociated_loop rt st ex (stub # queue) assoc =
     (if ex \<and> stub_kind stub = Trait then getAssociated_loop rt st ex queue assoc
      else
        (case SymbolStore_find rt st (stub_name stub) (Some isClassLike) of
           Inl e \<Rightarrow> Inl e
         | Inr found \<Rightarrow>
             (case found of
                [] \<Rightarrow> getAssociated_loop rt st ex queue assoc
              | s # _ \<Rightarrow>
                  (if s \<in> set assoc then getAssociated_loop rt st ex queue assoc
                   else getAssociated_loop rt st ex (queue @ associated (data s)) (assoc @ [s])))))"
  by pat_completeness auto
termination
proof (relation "measures [\<lambda>(rt, st, ex, queue, assoc). card (index_symbols st - set assoc),
                          \<lambda>(rt, st, ex, queue, assoc). length queue]", goal_cases)
  case 1
  show ?case by simp
next
  case (2 rt st ex stub queue assoc)
  show ?case by simp
next
  case (3 rt st ex stub queue assoc found)
  show ?case by simp
next
  case (4 rt st ex stub queue assoc found s rest)
  show ?case by simp
next
  case (5 rt st ex stub queue assoc found s rest)
  from 5 have "s \<in> index_symbols st"
    using SymbolStore_find_subset [of rt st "stub_name stub" "Some isClassLike" found] by auto
  with 5 have "index_symbols st - set (assoc @ [s]) \<subset> index_symbols st - set assoc" by auto
  then have "card (index_symbols st - set (assoc @ [s])) < card (index_symbols st - set assoc)"
    by (intro psubset_card_mono) (simp_all add: finite_index_symbols)
  then show ?case by simp
qed

definition getAssociated :: "Runtime \<Rightarrow> TypeAggregate \<Rightarrow> error + PhpSymbol list" where
  "getAssociated rt ta =
     getAssociated_loop rt (symbolStore ta) (excludeTraits ta) (associated (data (symbol ta))) []"

definition TypeAggregate_associated ::
  "Runtime \<Rightarrow> TypeAggregate \<Rightarrow> (PhpSymbol \<Rightarrow> bool) option \<Rightarrow> error + PhpSymbol list" where
  "TypeAggregate_associated rt ta fltr =
     (case getAssociated rt ta of
        Inl e \<Rightarrow> Inl e
      | Inr assoc \<Rightarrow> (case fltr of None \<Rightarrow> Inr assoc | Some f \<Rightarrow> Inr (filter f assoc)))"

definition interfaceMembers :: "PhpSymbol list \<Rightarrow> (PhpSymbol \<Rightarrow> bool) option \<Rightarrow> PhpSymbol list" where
  "interfaceMembers interfaces predicate =
     concat (map (\<lambda>s. case predicate of None \<Rightarrow> children s | Some p \<Rightarrow> filter p (children s))
       interfaces)"

definition traitMembers :: "PhpSymbol list \<Rightarrow> (PhpSymbol \<Rightarrow> bool) option \<Rightarrow> PhpSymbol list" where
  "traitMembers traits predicate = interfaceMembers traits predicate"

definition hasInheritdoc :: "Runtime \<Rightarrow> string \<Rightarrow> bool" where
  "hasInheritdoc rt descr =
     (if descr = [] then False
      else (let d = trim rt (toLowerCase rt descr) in d = ''@inheritdoc'' \<or> d = ''{@inheritdoc}''))"

text \<open>
  \<^verbatim>\<open>_mergeMembers\<close>. The JavaScript object \<^verbatim>\<open>map\<close> is an association list in insertion order,
  which is the order of \<^verbatim>\<open>Object.keys\<close> for member names that are neither array indices nor
  names of properties of \<^verbatim>\<open>Object.prototype\<close>. For a member named like such a property
  (\<^verbatim>\<open>toString\<close>, \<^verbatim>\<open>constructor\<close>) the source reads the inherited property as the entry
  mapped before, and for a name that is an array index \<^verbatim>\<open>Object.keys\<close> lists the entry first;
  the model covers neither kind of name. \<open>merge_replaces\<close> is the condition under which the
  entry for the name of \<open>s\<close> is written.
\<close>

definition merge_replaces :: "Runtime \<Rightarrow> MemberMergeStrategy \<Rightarrow> PhpSymbol option \<Rightarrow> PhpSymbol \<Rightarrow> bool" where
  "merge_replaces rt strategy mapped s =
     (case mapped of
        None \<Rightarrow> True
      | Some m \<Rightarrow>
          (Magic \<in> modifiers (data m) \<and> Magic \<notin> modifiers (data s))
          \<or> (strategy = Documented
              \<and> (case doc (data m) of None \<Rightarrow> True | Some d \<Rightarrow> hasInheritdoc rt (description d))
              \<and> doc (data s) \<noteq> None)
          \<or> strategy = Base)"

fun mergeMembers_loop ::
  "Runtime \<Rightarrow> MemberMergeStrategy \<Rightarrow> PhpSymbol list \<Rightarrow> (string \<times> PhpSymbol) list \<Rightarrow> (string \<times> PhpSymbol) list" where
  "mergeMembers_loop rt strategy [] m = m"
| "mergeMembers_loop rt strategy (s # symbols) m =
     mergeMembers_loop rt strategy symbols
       (if merge_replaces rt strategy (map_of m (name (data s))) s
        then AList.update (name (data s)) s m else m)"

definition mergeMembers :: "Runtime \<Rightarrow> PhpSymbol list \<Rightarrow> MemberMergeStrategy \<Rightarrow> PhpSymbol list" where
  "mergeMembers rt symbols strategy =
     (if strategy = NoneStrategy then symbols
      else map snd (mergeMembers_loop rt strategy symbols []))"

text \<open>
  The loop of \<^verbatim>\<open>_classMembers\<close>: \<open>p\<close> is the caller's predicate for the first element and
  \<open>noPrivate\<close> from the second on.
\<close>

fun classMembers_loop ::
  "PhpSymbol list \<Rightarrow> (PhpSymbol \<Rightarrow> bool) option \<Rightarrow> (PhpSymbol \<Rightarrow> bool) \<Rightarrow> PhpSymbol list
   \<Rightarrow> PhpSymbol list \<Rightarrow> PhpSymbol list \<times> PhpSymbol list" where
  "classMembers_loop [] p noPrivate members traits = (members, traits)"
| "classMembers_loop (s # rest) p noPrivate members traits =
     (if kind (data s) = Trait
      then classMembers_loop rest (Some noPrivate) noPrivate members (traits @ [s])
      else classMembers_loop rest (Some noPrivate) noPrivate
             (members @ (case p of None \<Rightarrow> children s | Some f \<Rightarrow> filter f (children s))) traits)"

definition classMembers ::
  "Runtime \<Rightarrow> PhpSymbol list \<Rightarrow> MemberMergeStrategy \<Rightarrow> (PhpSymbol \<Rightarrow> bool) option \<Rightarrow> PhpSymbol list" where
  "classMembers rt assoc strategy predicate =
     (let noPrivate = (\<lambda>x. Private \<notin> modifiers (data x) \<and> passes predicate x) in
      case classMembers_loop assoc predicate noPrivate [] [] of
        (members, traits) \<Rightarrow>
          mergeMembers rt members strategy @ traitMembers traits (Some noPrivate))"

definition TypeAggregate_members ::
  "Runtime \<Rightarrow> TypeAggregate \<Rightarrow> MemberMergeStrategy \<Rightarrow> (PhpSymbol \<Rightarrow> bool) option \<Rightarrow> error + PhpSymbol list" where
  "TypeAggregate_members rt ta mergeStrategy predicate =
     (case getAssociated rt ta of
        Inl e \<Rightarrow> Inl e
      | Inr assoc \<Rightarrow>
          (let assoc' = symbol ta # assoc in
           if kind (data (symbol ta)) = Class then Inr (classMembers rt assoc' mergeStrategy predicate)
           else if kind (data (symbol ta)) = Interface then Inr (interfaceMembers assoc' predicate)
           else if kind (data (symbol ta)) = Trait then Inr (traitMembers assoc' predicate)
           else Inr []))"

definition TypeAggregate_create :: "Runtime \<Rightarrow> SymbolStore \<Rightarrow> string \<Rightarrow> error + TypeAggregate option" where
  "TypeAggregate_create rt st fqn =
     (if fqn = [] then Inr None
      else
        (case SymbolStore_find rt st fqn (Some isClassLike) of
           Inl e \<Rightarrow> Inl e
         | Inr found \<Rightarrow>
             (case found of
                [] \<Rightarrow> Inr None
              | s # _ \<Rightarrow>
                  (case TypeAggregate_new st (Some s) False of
                     Inl e \<Rightarrow> Inl e
                   | Inr ta \<Rightarrow> Inr (Some ta)))))"

section \<open>Member lookup\<close>

text \<open>
  Modelled from the spec: \<^verbatim>\<open>TypeString.atomicClassArray\<close> is not among the sources. The spec
  splits a type-string, possibly a union, into its atomic class names.
\<close>

definition atomicClassArray :: "string \<Rightarrow> string list" where
  "atomicClassArray typeString = filter (\<lambda>part. part \<noteq> []) (String_split CHR ''|'' typeString)"

fun findMembers_loop ::
  "Runtime \<Rightarrow> SymbolStore \<Rightarrow> string list \<Rightarrow> MemberMergeStrategy \<Rightarrow> (PhpSymbol \<Rightarrow> bool) option
   \<Rightarrow> PhpSymbol list \<Rightarrow> error + PhpSymbol list" where
  "findMembers_loop rt st [] strategy predicate members = Inr members"
| "findMembers_loop rt st (fqn # fqnArray) strategy predicate members =
     (case TypeAggregate_create rt st fqn of
        Inl e \<Rightarrow> Inl e
      | Inr None \<Rightarrow> findMembers_loop rt st fqnArray strategy predicate members
      | Inr (Some ta) \<Rightarrow>
          (case TypeAggregate_members rt ta strategy predicate of
             Inl e \<Rightarrow> Inl e
           | Inr ms \<Rightarrow> findMembers_loop rt st fqnArray strategy predicate (members @ ms)))"

definition findMembers ::
  "Runtime \<Rightarrow> SymbolStore \<Rightarrow> string \<Rightarrow> MemberMergeStrategy \<Rightarrow> (PhpSymbol \<Rightarrow> bool) option
   \<Rightarrow> error + PhpSymbol list" where
  "findMembers rt st scp strategy predicate =
     (case findMembers_loop rt st (atomicClassArray scp) strategy predicate [] of
        Inl e \<Rightarrow> Inl e
      | Inr members \<Rightarrow> Inr (fold (\<lambda>x acc. Set_add acc x) members []))"

definition baseMemberPredicate :: "Runtime \<Rightarrow> PhpSymbol \<Rightarrow> PhpSymbol \<Rightarrow> bool" where
  "baseMemberPredicate rt symb =
     (if kind (data symb) = Method then
        (\<lambda>s. kind (data s) = kind (data symb) \<and> modifiers (data s) = modifiers (data symb)
             \<and> toLowerCase rt (name (data symb)) = toLowerCase rt (name (data s)))
      else
        (\<lambda>s. kind (data s) = kind (data symb) \<and> modifiers (data s) = modifiers (data symb)
             \<and> name (data symb) = name (data s)))"

definition findBaseMember :: "Runtime \<Rightarrow> SymbolStore \<Rightarrow> PhpSymbol option \<Rightarrow> error + PhpSymbol option" where
  "findBaseMember rt st symbol_opt =
     (case symbol_opt of
        None \<Rightarrow> Inr None
      | Some symb \<Rightarrow>
          (case scope (data symb) of
             None \<Rightarrow> Inr (Some symb)
           | Some scp \<Rightarrow>
               (if scp = [] then Inr (Some symb)
                else if kind (data symb) \<notin> {Property, Method, ClassConstant} then Inr (Some symb)
                else if Private \<in> modifiers (data symb) then Inr (Some symb)
                else
                  (case findMembers rt st scp Base (Some (baseMemberPredicate rt symb)) of
                     Inl e \<Rightarrow> Inl e
                   | Inr found \<Rightarrow>
                       (case found of [] \<Rightarrow> Inr (Some symb) | m # _ \<Rightarrow> Inr (Some m))))))"

section \<open>Errors of the store operations\<close>

lemma IndexableSymbolVisitor_items_error:
  "IndexableSymbolVisitor_items rt nodes = Inl e \<Longrightarrow> e = TypeError"
  by (induction nodes)
     (auto simp: KeyedHashedStartLocation_create_def split: if_splits option.splits sum.splits)

section \<open>Example data\<close>

text \<open>
  A document \<^verbatim>\<open>a.php\<close> declaring \<^verbatim>\<open>interface I { function f(); }\<close> and
  \<^verbatim>\<open>class C implements I { function f(){} function g(){} }\<close>, as the symbol reader hands it
  over: every location carries the hash of the document's URI.
\<close>

definition example_uid :: "string \<Rightarrow> nat" where
  "example_uid u =
     (if u = ''a.php'' then 1 else if u = ''b.php'' then 2 else if u = ''c.php'' then 3
      else if u = ''d.php'' then 4 else if u = ''e.php'' then 5 else 0)"

definition example_rt :: Runtime where
  "example_rt =
     \<lparr>uriMap_id = example_uid, toLowerCase = ascii_toLowerCase, trim = ascii_trim\<rparr>"

definition at :: "nat \<Rightarrow> nat \<Rightarrow> nat \<Rightarrow> HashedLocation option" where
  "at h l c =
     Some \<lparr>loc_uriHash = h,
           loc_range = \<lparr>range_start = \<lparr>line = l, character = c\<rparr>,
                        range_end = \<lparr>line = l, character = c + 1\<rparr>\<rparr>\<rparr>"

definition stub_at :: "nat \<Rightarrow> nat \<Rightarrow> nat \<Rightarrow> HashedStartLocation" where
  "stub_at h l c = \<lparr>uriHash = h, start = \<lparr>line = l, character = c\<rparr>\<rparr>"

definition node ::
  "nat \<Rightarrow> SymbolKind \<Rightarrow> string \<Rightarrow> SymbolModifier set \<Rightarrow> string option \<Rightarrow> AssociatedStub list
   \<Rightarrow> HashedLocation option \<Rightarrow> PhpSymbol list \<Rightarrow> PhpSymbol" where
  "node i k n ms sc as l cs =
     PhpSymbol \<lparr>oid = i, kind = k, name = n, modifiers = ms, scope = sc, type = None,
       associated = as, location = l, doc = None\<rparr> cs"

definition I_f :: PhpSymbol where
  "I_f = node 2 Method ''f'' {Public} (Some ''I'') [] (at 1 2 4) []"

definition I_sym :: PhpSymbol where
  "I_sym = node 1 Interface ''I'' {} None [] (at 1 1 0) [I_f]"

definition C_f :: PhpSymbol where
  "C_f = node 4 Method ''f'' {Public} (Some ''C'') [] (at 1 5 4) []"

definition C_g :: PhpSymbol where
  "C_g = node 5 Method ''g'' {Public} (Some ''C'') [] (at 1 6 4) []"

definition C_sym :: PhpSymbol where
  "C_sym = node 3 Class ''C'' {} None [\<lparr>stub_kind = Interface, stub_name = ''I''\<rparr>] (at 1 4 0)
     [C_f, C_g]"

definition table_a :: SymbolTable where
  "table_a = \<lparr>uri = ''a.php'', root = node 0 File ''a.php'' {} None [] (at 1 0 0) [I_sym, C_sym]\<rparr>"

definition store_a :: SymbolStore where
  "store_a =
     \<lparr>tableIndex = [1 \<mapsto> table_a],
      symbolIndex = [(''i'', [stub_at 1 1 0]), (''f'', [stub_at 1 2 4, stub_at 1 5 4]),
                     (''c'', [stub_at 1 4 0]), (''g'', [stub_at 1 6 4])],
      symbolCount = 5\<rparr>"

lemmas example_defs = example_rt_def example_uid_def at_def stub_at_def node_def I_f_def I_sym_def C_f_def
  C_g_def C_sym_def table_a_def

lemmas store_defs = SymbolStore_add_def SymbolStore_remove_def SymbolStore_new_def
  SymbolTable_indexItems_def KeyedHashedStartLocation_create_def
  KeyedHashedStartLocation_keys_def PhpSymbol_keys_def indexable_def index_addItems_def
  index_removeItems_def NameIndex_add_def NameIndex_remove_def NameIndex_add_key_def
  NameIndex_remove_key_def example_rt_def ascii_toLowerCase_def lower_char_def
  SymbolTable_symbolCount_def
  TreeTraverser_count_def

lemma add_table_a: "SymbolStore_add example_rt SymbolStore_new table_a = Inr store_a"
  by (simp add: store_defs example_defs store_a_def)

section \<open>Replace semantics of add\<close>

lemma SymbolStore_remove_absent:
  "tableIndex st (uriMap_id rt u) = None \<Longrightarrow> SymbolStore_remove rt st u = Inr st"
  by (simp add: SymbolStore_remove_def)

lemma SymbolStore_remove_unregisters:
  "SymbolStore_remove rt st u = Inr st' \<Longrightarrow> tableIndex st' (uriMap_id rt u) = None"
  by (auto simp: SymbolStore_remove_def Let_def split: option.splits sum.splits)

lemma SymbolStore_add_error:
  "SymbolStore_add rt st T = Inl e \<Longrightarrow> e = TypeError"
  by (auto simp: SymbolStore_add_def SymbolStore_remove_def SymbolTable_indexItems_def Let_def
        KeyedHashedStartLocation_create_def
      split: option.splits sum.splits if_splits
      dest!: IndexableSymbolVisitor_items_error)

text \<open>
  Claim C2. When the store already holds a table for the URI of \<open>T\<close>, \<open>add\<close> of \<open>T\<close> gives
  the result of \<open>remove\<close> of that URI followed by \<open>add\<close> of \<open>T\<close>, where the store that
  \<open>remove\<close> returns holds no table for the URI; and \<open>add\<close> never raises the duplicate-key
  error.
\<close>

theorem SymbolStore_add_replaces:
  assumes "tableIndex st (uriMap_id rt (uri T)) = Some old"
  shows "SymbolStore_add rt st T =
           (case SymbolStore_remove rt st (uri T) of
              Inl e \<Rightarrow> Inl e
            | Inr st' \<Rightarrow> SymbolStore_add rt st' T)
         \<and> (\<forall>st'. SymbolStore_remove rt st (uri T) = Inr st' \<longrightarrow> tableIndex st' (uriMap_id rt (uri T)) = None)
         \<and> SymbolStore_add rt st T \<noteq> Inl DuplicateKey"
proof (intro conjI allI impI)
  show "SymbolStore_add rt st T =
          (case SymbolStore_remove rt st (uri T) of
             Inl e \<Rightarrow> Inl e
           | Inr st' \<Rightarrow> SymbolStore_add rt st' T)"
  proof (cases "SymbolStore_remove rt st (uri T)")
    case (Inl e)
    then show ?thesis by (simp add: SymbolStore_add_def)
  next
    case (Inr st')
    then have "SymbolStore_remove rt st' (uri T) = Inr st'"
      by (intro SymbolStore_remove_absent SymbolStore_remove_unregisters)
    with Inr show ?thesis by (simp add: SymbolStore_add_def)
  qed
next
  fix st' assume "SymbolStore_remove rt st (uri T) = Inr st'"
  then show "tableIndex st' (uriMap_id rt (uri T)) = None" by (rule SymbolStore_remove_unregisters)
next
  show "SymbolStore_add rt st T \<noteq> Inl DuplicateKey"
    using SymbolStore_add_error [of rt st T DuplicateKey] by auto
qed

theorem SymbolStore_add_replaces_witness:
  "tableIndex store_a (uriMap_id example_rt (uri table_a)) = Some table_a
   \<and> SymbolStore_remove example_rt store_a (uri table_a)
       = Inr \<lparr>tableIndex = Map.empty,
              symbolIndex = [(''i'', []), (''f'', []), (''c'', []), (''g'', [])],
              symbolCount = 0\<rparr>
   \<and> SymbolStore_add example_rt store_a table_a
       = SymbolStore_add example_rt
           \<lparr>tableIndex = Map.empty,
            symbolIndex = [(''i'', []), (''f'', []), (''c'', []), (''g'', [])],
            symbolCount = 0\<rparr> table_a
   \<and> SymbolStore_add example_rt store_a table_a \<noteq> Inl DuplicateKey"
proof -
  have h: "tableIndex store_a (uriMap_id example_rt (uri table_a)) = Some table_a"
    by (simp add: store_a_def example_defs)
  have r: "SymbolStore_remove example_rt store_a (uri table_a)
       = Inr \<lparr>tableIndex = Map.empty,
              symbolIndex = [(''i'', []), (''f'', []), (''c'', []), (''g'', [])],
              symbolCount = 0\<rparr>"
    by (simp add: store_defs example_defs store_a_def)
  note t = SymbolStore_add_replaces [where rt = example_rt and st = store_a and T = table_a, OF h]
  from t r have a: "SymbolStore_add example_rt store_a table_a
       = SymbolStore_add example_rt
           \<lparr>tableIndex = Map.empty,
            symbolIndex = [(''i'', []), (''f'', []), (''c'', []), (''g'', [])],
            symbolCount = 0\<rparr> table_a"
    by simp
  from t have c: "SymbolStore_add example_rt store_a table_a \<noteq> Inl DuplicateKey"
    by blast
  from h r a c show ?thesis by blast
qed

section \<open>Buckets of the index\<close>

text \<open>
  What \<open>add\<close> and \<open>remove\<close> of the index do to the bucket of a key: \<open>entries_at\<close> lists
  the stubs that a list of index items enters under the key.
\<close>

definition entries_at :: "string \<Rightarrow> KeyedHashedStartLocation list \<Rightarrow> HashedStartLocation list" where
  "entries_at k items =
     concat (map (\<lambda>it. replicate (count_list (keys it) k) (start_location it)) items)"

definition hashedStart :: "HashedLocation \<Rightarrow> HashedStartLocation" where
  "hashedStart l = \<lparr>uriHash = loc_uriHash l, start = range_start (loc_range l)\<rparr>"

definition node_stubs :: "PhpSymbol \<Rightarrow> HashedStartLocation list" where
  "node_stubs n = (case location (data n) of None \<Rightarrow> [] | Some l \<Rightarrow> [hashedStart l])"

lemma bucket_add_key:
  "bucket (NameIndex_add_key item k idx) k' =
     (if k' = k then bucket idx k @ [item] else bucket idx k')"
  by (cases "map_of idx k")
     (auto simp: NameIndex_add_key_def bucket_def update_conv' map_add_def split: option.splits)

lemma bucket_remove_key:
  "bucket (NameIndex_remove_key item k idx) k' =
     (if k' = k then remove1 item (bucket idx k) else bucket idx k')"
  by (cases "map_of idx k")
     (auto simp: NameIndex_remove_key_def bucket_def update_conv' split: option.splits)

lemma bucket_add:
  "bucket (NameIndex_add item ks idx) k = bucket idx k @ replicate (count_list ks k) item"
  unfolding NameIndex_add_def
  by (induction ks arbitrary: idx) (auto simp: bucket_add_key replicate_append_same)

lemma mset_bucket_remove:
  "mset (bucket (NameIndex_remove item ks idx) k) =
     mset (bucket idx k) - replicate_mset (count_list ks k) item"
  unfolding NameIndex_remove_def
  by (induction ks arbitrary: idx) (auto simp: bucket_remove_key)

lemma bucket_addItems:
  "bucket (index_addItems items idx) k = bucket idx k @ entries_at k items"
  unfolding index_addItems_def entries_at_def
  by (induction items arbitrary: idx) (auto simp: bucket_add)

lemma mset_bucket_removeItems:
  "mset (bucket (index_removeItems items idx) k) = mset (bucket idx k) - mset (entries_at k items)"
  unfolding index_removeItems_def entries_at_def
  by (induction items arbitrary: idx) (auto simp: mset_bucket_remove)

lemma distinct_KeyedHashedStartLocation_keys: "distinct (KeyedHashedStartLocation_keys rt s)"
  by (auto simp: KeyedHashedStartLocation_keys_def PhpSymbol_keys_def Let_def split: list.splits)

lemma count_list_distinct: "distinct xs \<Longrightarrow> count_list xs k = (if k \<in> set xs then 1 else 0)"
  by (induction xs) auto

lemma IndexableSymbolVisitor_items_entries:
  "IndexableSymbolVisitor_items rt nodes = Inr items \<Longrightarrow>
   entries_at k items =
     concat (map node_stubs
       (filter (\<lambda>n. indexable n \<and> k \<in> set (KeyedHashedStartLocation_keys rt n)) nodes))
   \<and> (\<forall>n \<in> set nodes. indexable n \<longrightarrow> location (data n) \<noteq> None)"
proof (induction nodes arbitrary: items)
  case Nil
  then show ?case by (simp add: entries_at_def)
next
  case (Cons n nodes)
  show ?case
  proof (cases "indexable n")
    case False
    with Cons show ?thesis by simp
  next
    case True
    with Cons.prems obtain l items' where l: "location (data n) = Some l"
      and r: "IndexableSymbolVisitor_items rt nodes = Inr items'"
      and i: "items = \<lparr>keys = KeyedHashedStartLocation_keys rt n, start_location = hashedStart l\<rparr> # items'"
      by (auto simp: KeyedHashedStartLocation_create_def hashedStart_def
          split: option.splits sum.splits)
    from Cons.IH [OF r] True l i show ?thesis
      by (auto simp: entries_at_def node_stubs_def count_list_distinct
            distinct_KeyedHashedStartLocation_keys)
  qed
qed

lemma resolveStub_cong: "tableIndex st2 = tableIndex st \<Longrightarrow> resolveStub st2 = resolveStub st"
  by (simp add: resolveStub_def fun_eq_iff)

section \<open>What add enters into the index\<close>

text \<open>
  A second document \<^verbatim>\<open>b.php\<close> with the script-level statement \<^verbatim>\<open>$x = 1;\<close>: its table holds
  one Variable, which has a location.
\<close>

definition var_x :: PhpSymbol where
  "var_x = node 21 Variable ''$x'' {} None [] (at 2 1 0) []"

definition table_v :: SymbolTable where
  "table_v = \<lparr>uri = ''b.php'', root = node 20 File ''b.php'' {} None [] (at 2 0 0) [var_x]\<rparr>"

text \<open>
  The nodes that claim C5 says are indexed, in the words of the claim: not a Parameter, not a
  File, not marked Use, not a Variable without a location, with a non-empty name, and (its
  last clause) not a Variable that has a location.
\<close>

definition claimed_indexed :: "PhpSymbol \<Rightarrow> bool" where
  "claimed_indexed n =
     (kind (data n) \<noteq> Parameter \<and> kind (data n) \<noteq> File \<and> Use \<notin> modifiers (data n)
      \<and> \<not> (kind (data n) = Variable \<and> location (data n) = None)
      \<and> name (data n) \<noteq> []
      \<and> \<not> (kind (data n) = Variable \<and> location (data n) \<noteq> None))"

text \<open>
  Claim C5. The nodes that the visitor of \<open>add\<close> accepts are exactly the nodes the claim
  names: not of kind Parameter or File, not marked Use, not a Variable without a location,
  not a Variable with a location, and with a non-empty name. When \<open>add\<close> of \<open>T\<close> returns, it
  has removed the table registered before for the URI and then, for every key, appended to
  the bucket of the key the stub of each such node of \<open>T\<close>, in pre-order, that has the key
  among its keys; nothing else is entered, and every such node has a location. In
  particular no Variable is accepted, with a location or without.
\<close>

theorem SymbolStore_add_indexes:
  assumes "SymbolStore_add rt st T = Inr st'"
  shows "(\<forall>n. indexable n = claimed_indexed n)
     \<and> (\<exists>st0. SymbolStore_remove rt st (uri T) = Inr st0
          \<and> (\<forall>k. bucket (symbolIndex st') k =
                 bucket (symbolIndex st0) k @
                 concat (map node_stubs
                   (filter (\<lambda>n. claimed_indexed n \<and> k \<in> set (KeyedHashedStartLocation_keys rt n))
                      (toArray (root T))))))
     \<and> (\<forall>n \<in> set (toArray (root T)). claimed_indexed n \<longrightarrow> location (data n) \<noteq> None)
     \<and> (\<forall>n. kind (data n) = Variable \<longrightarrow> \<not> indexable n)"
proof -
  from assms obtain st0 items where r: "SymbolStore_remove rt st (uri T) = Inr st0"
    and it: "IndexableSymbolVisitor_items rt (toArray (root T)) = Inr items"
    and idx: "symbolIndex st' = index_addItems items (symbolIndex st0)"
    by (auto simp: SymbolStore_add_def SymbolTable_indexItems_def Let_def split: sum.splits)
  have t: "indexable = claimed_indexed"
    by (auto simp: indexable_def claimed_indexed_def fun_eq_iff)
  have v: "\<forall>n. kind (data n) = Variable \<longrightarrow> \<not> indexable n"
    by (simp add: indexable_def)
  from IndexableSymbolVisitor_items_entries [OF it] r idx
  have "(\<exists>st0. SymbolStore_remove rt st (uri T) = Inr st0
          \<and> (\<forall>k. bucket (symbolIndex st') k =
                 bucket (symbolIndex st0) k @
                 concat (map node_stubs
                   (filter (\<lambda>n. claimed_indexed n \<and> k \<in> set (KeyedHashedStartLocation_keys rt n))
                      (toArray (root T))))))
     \<and> (\<forall>n \<in> set (toArray (root T)). claimed_indexed n \<longrightarrow> location (data n) \<noteq> None)"
    unfolding t by (simp add: bucket_addItems)
  with t v show ?thesis by simp
qed

text \<open>
  In \<^verbatim>\<open>a.php\<close> the two methods \<open>f\<close> are entered under the key \<^verbatim>\<open>f\<close>; in \<^verbatim>\<open>b.php\<close> the Variable
  \<^verbatim>\<open>$x\<close> has a location, and \<open>add\<close> of its table leaves the index empty.
\<close>

theorem SymbolStore_add_indexes_witness:
  "SymbolStore_add example_rt SymbolStore_new table_a = Inr store_a
   \<and> SymbolStore_remove example_rt SymbolStore_new (uri table_a) = Inr SymbolStore_new
   \<and> bucket (symbolIndex store_a) ''f'' =
       bucket (symbolIndex SymbolStore_new) ''f'' @
       concat (map node_stubs
         (filter (\<lambda>n. claimed_indexed n \<and> ''f'' \<in> set (KeyedHashedStartLocation_keys example_rt n))
            (toArray (root table_a))))
   \<and> bucket (symbolIndex store_a) ''f'' = [stub_at 1 2 4, stub_at 1 5 4]
   \<and> var_x \<in> set (toArray (root table_v))
   \<and> location (data var_x) \<noteq> None
   \<and> \<not> claimed_indexed var_x
   \<and> SymbolStore_add example_rt SymbolStore_new table_v
       = Inr \<lparr>tableIndex = [2 \<mapsto> table_v], symbolIndex = [], symbolCount = 1\<rparr>"
proof -
  have r: "SymbolStore_remove example_rt SymbolStore_new (uri table_a) = Inr SymbolStore_new"
    by (simp add: SymbolStore_remove_def SymbolStore_new_def)
  from SymbolStore_add_indexes [OF add_table_a] r
  have "bucket (symbolIndex store_a) ''f'' =
       bucket (symbolIndex SymbolStore_new) ''f'' @
       concat (map node_stubs
         (filter (\<lambda>n. claimed_indexed n \<and> ''f'' \<in> set (KeyedHashedStartLocation_keys example_rt n))
            (toArray (root table_a))))"
    by auto
  moreover have "bucket (symbolIndex store_a) ''f'' = [stub_at 1 2 4, stub_at 1 5 4]"
    by (simp add: store_a_def bucket_def)
  moreover have "var_x \<in> set (toArray (root table_v))"
    by (simp add: example_defs var_x_def table_v_def)
  moreover have "location (data var_x) \<noteq> None"
    by (simp add: example_defs var_x_def)
  moreover have "\<not> claimed_indexed var_x"
    by (simp add: claimed_indexed_def example_defs var_x_def)
  moreover have "SymbolStore_add example_rt SymbolStore_new table_v
       = Inr \<lparr>tableIndex = [2 \<mapsto> table_v], symbolIndex = [], symbolCount = 1\<rparr>"
    by (simp add: store_defs example_defs var_x_def table_v_def)
  ultimately show ?thesis using add_table_a r by blast
qed

section \<open>Add followed by remove\<close>

text \<open>
  A document \<^verbatim>\<open>b.php\<close> that declares a class \<^verbatim>\<open>C\<close> of its own, next to the class \<^verbatim>\<open>C\<close> of
  \<^verbatim>\<open>a.php\<close>.
\<close>

definition B_C :: PhpSymbol where
  "B_C = node 11 Class ''C'' {} None [] (at 2 1 0) []"

definition table_b :: SymbolTable where
  "table_b = \<lparr>uri = ''b.php'', root = node 10 File ''b.php'' {} None [] (at 2 0 0) [B_C]\<rparr>"

definition store_ab :: SymbolStore where
  "store_ab =
     \<lparr>tableIndex = [1 \<mapsto> table_a, 2 \<mapsto> table_b],
      symbolIndex = [(''i'', [stub_at 1 1 0]), (''f'', [stub_at 1 2 4, stub_at 1 5 4]),
                     (''c'', [stub_at 1 4 0, stub_at 2 1 0]), (''g'', [stub_at 1 6 4])],
      symbolCount = 6\<rparr>"

lemmas find_defs = SymbolStore_find_def NameIndex_find_def bucket_def indexResultToSymbols_def
  FindByStartPositionTraverser_find_def startsAt_def Set_add_def passes_def find_accepts_def
  example_rt_def ascii_toLowerCase_def lower_char_def

lemma table_b_unregistered: "tableIndex store_a (uriMap_id example_rt (uri table_b)) = None"
  by (simp add: store_a_def example_defs table_b_def)

lemma add_table_b: "SymbolStore_add example_rt store_a table_b = Inr store_ab"
  by (simp add: store_defs example_defs store_a_def store_ab_def table_b_def B_C_def)

lemma remove_table_b: "SymbolStore_remove example_rt store_ab (uri table_b) = Inr store_a"
  by (simp add: store_defs example_defs store_a_def store_ab_def table_b_def B_C_def fun_eq_iff)

lemma find_C_store_a: "SymbolStore_find example_rt store_a ''C'' None = Inr [C_sym]"
  by (simp add: find_defs example_defs store_a_def)

text \<open>
  Claim C3, as amended. When the URI of \<open>T\<close> is not registered and \<open>add\<close> of \<open>T\<close> returns,
  \<open>remove\<close> of the URI returns as well and restores the symbol count, the registered tables
  and the content of every bucket of the index, so that \<open>find\<close> answers every query with the
  same set of symbols (or the same error) as before the \<open>add\<close>: a name of a symbol of \<open>T\<close>
  is findable afterwards only if it was findable before.
\<close>

theorem SymbolStore_add_remove_restores:
  assumes "tableIndex st (uriMap_id rt (uri T)) = None" and "SymbolStore_add rt st T = Inr st1"
  shows "\<exists>st2. SymbolStore_remove rt st1 (uri T) = Inr st2
     \<and> symbolCount st2 = symbolCount st
     \<and> tableIndex st2 = tableIndex st
     \<and> (\<forall>k. mset (bucket (symbolIndex st2) k) = mset (bucket (symbolIndex st) k))
     \<and> (\<forall>text fltr. map_sum id set (SymbolStore_find rt st2 text fltr)
                        = map_sum id set (SymbolStore_find rt st text fltr))"
proof -
  from assms(1) have r0: "SymbolStore_remove rt st (uri T) = Inr st"
    by (rule SymbolStore_remove_absent)
  with assms(2) obtain items where it: "SymbolTable_indexItems rt T = Inr items"
    and st1: "st1 = \<lparr>tableIndex = (tableIndex st)(uriMap_id rt (uri T) \<mapsto> T),
                     symbolIndex = index_addItems items (symbolIndex st),
                     symbolCount = symbolCount st + SymbolTable_symbolCount T\<rparr>"
    by (auto simp: SymbolStore_add_def Let_def split: sum.splits)
  define st2 where "st2 = \<lparr>tableIndex = (tableIndex st1)(uriMap_id rt (uri T) := None),
                     symbolIndex = index_removeItems items (symbolIndex st1),
                     symbolCount = symbolCount st1 - SymbolTable_symbolCount T\<rparr>"
  have r: "SymbolStore_remove rt st1 (uri T) = Inr st2"
    using it by (simp add: SymbolStore_remove_def st1 st2_def)
  have c: "symbolCount st2 = symbolCount st" by (simp add: st2_def st1)
  have t: "tableIndex st2 = tableIndex st"
    using assms(1) by (auto simp: st2_def st1 fun_eq_iff)
  have b: "mset (bucket (symbolIndex st2) k) = mset (bucket (symbolIndex st) k)" for k
    by (simp add: st2_def st1 mset_bucket_removeItems bucket_addItems)
  have s: "set (bucket (symbolIndex st2) k) = set (bucket (symbolIndex st) k)" for k
    using b [of k] by (metis set_mset_mset)
  have f: "map_sum id set (SymbolStore_find rt st2 q fltr)
             = map_sum id set (SymbolStore_find rt st q fltr)" for q fltr
    by (simp only: SymbolStore_find_char s t resolveStub_cong [OF t])
  from r c t b f show ?thesis by blast
qed

theorem SymbolStore_add_remove_restores_witness:
  "tableIndex store_a (uriMap_id example_rt (uri table_b)) = None
   \<and> SymbolStore_add example_rt store_a table_b = Inr store_ab
   \<and> SymbolStore_remove example_rt store_ab (uri table_b) = Inr store_a
   \<and> symbolCount store_ab = 6 \<and> symbolCount store_a = 5
   \<and> (\<exists>st2. SymbolStore_remove example_rt store_ab (uri table_b) = Inr st2
         \<and> symbolCount st2 = symbolCount store_a
         \<and> tableIndex st2 = tableIndex store_a
         \<and> (\<forall>k. mset (bucket (symbolIndex st2) k) = mset (bucket (symbolIndex store_a) k))
         \<and> (\<forall>text fltr. map_sum id set (SymbolStore_find example_rt st2 text fltr)
                            = map_sum id set (SymbolStore_find example_rt store_a text fltr)))"
proof -
  have c: "symbolCount store_ab = 6 \<and> symbolCount store_a = 5"
    by (simp add: store_a_def store_ab_def)
  from SymbolStore_add_remove_restores [OF table_b_unregistered add_table_b]
    table_b_unregistered add_table_b remove_table_b c
  show ?thesis by blast
qed

text \<open>
  Claim C3 as stated fails: \<^verbatim>\<open>b.php\<close> is not registered in the store that holds \<^verbatim>\<open>a.php\<close>;
  after \<open>add\<close> and \<open>remove\<close> of its table the name \<^verbatim>\<open>C\<close> of its class is still findable,
  through the class \<^verbatim>\<open>C\<close> of \<^verbatim>\<open>a.php\<close>.
\<close>

theorem SymbolStore_add_remove_counterexample:
  "tableIndex store_a (uriMap_id example_rt (uri table_b)) = None
   \<and> SymbolStore_add example_rt store_a table_b = Inr store_ab
   \<and> SymbolStore_remove example_rt store_ab (uri table_b) = Inr store_a
   \<and> B_C \<in> set (SymbolTable_symbols table_b)
   \<and> SymbolStore_find example_rt store_a (name (data B_C)) None = Inr [C_sym]"
proof -
  have "B_C \<in> set (SymbolTable_symbols table_b)"
    by (simp add: SymbolTable_symbols_def table_b_def B_C_def node_def)
  moreover have "name (data B_C) = ''C''"
    by (simp add: B_C_def node_def)
  ultimately show ?thesis
    using table_b_unregistered add_table_b remove_table_b find_C_store_a by simp
qed

section \<open>Stores whose index entries resolve\<close>

text \<open>
  Every stub of the index names a registered table: the lookups of such a store raise no
  TypeError.
\<close>

definition index_resolvable :: "SymbolStore \<Rightarrow> bool" where
  "index_resolvable st =
     (\<forall>kb \<in> set (symbolIndex st). \<forall>item \<in> set (snd kb). tableIndex st (uriHash item) \<noteq> None)"

lemma sum_set_InrE:
  assumes "map_sum id set r = Inr S"
  obtains rs where "r = Inr rs" and "set rs = S"
  using assms by (cases r) auto

lemma SymbolStore_find_total:
  assumes "index_resolvable st"
  shows "\<exists>rs. SymbolStore_find rt st text fltr = Inr rs"
proof -
  from assms have "\<forall>i \<in> set (bucket (symbolIndex st) (toLowerCase rt text)).
      tableIndex st (uriHash i) \<noteq> None"
    by (auto simp: index_resolvable_def dest!: bucket_subset)
  with SymbolStore_find_char [of rt st "text" fltr]
  have "\<exists>S. map_sum id set (SymbolStore_find rt st text fltr) = Inr S"
    by (auto split: if_splits)
  then show ?thesis by (auto elim: sum_set_InrE)
qed

lemma SymbolStore_match_total:
  assumes "index_resolvable st"
  shows "\<exists>rs. SymbolStore_match rt st text fltr = Inr rs"
proof (cases "text = []")
  case True
  then show ?thesis by (simp add: SymbolStore_match_def)
next
  case False
  from assms have "\<forall>i \<in> set (NameIndex_match rt (symbolIndex st) text).
      tableIndex st (uriHash i) \<noteq> None"
    by (auto simp: index_resolvable_def NameIndex_match_def)
  with indexResultToSymbols_loop_char [of st "NameIndex_match rt (symbolIndex st) text" "[]"]
  obtain ms where "indexResultToSymbols st (NameIndex_match rt (symbolIndex st) text) = Inr ms"
    by (auto simp: indexResultToSymbols_def elim: sum_set_InrE)
  with False show ?thesis
    by (simp add: SymbolStore_match_def split: option.splits)
qed

lemma SymbolStore_find_distinct:
  "SymbolStore_find rt st text fltr = Inr rs \<Longrightarrow> distinct rs"
  by (auto simp: SymbolStore_find_def indexResultToSymbols_def
      split: if_splits sum.splits dest!: indexResultToSymbols_loop_distinct)

lemma SymbolStore_match_distinct:
  "SymbolStore_match rt st text fltr = Inr rs \<Longrightarrow> distinct rs"
  by (auto simp: SymbolStore_match_def indexResultToSymbols_def
      split: if_splits sum.splits option.splits dest!: indexResultToSymbols_loop_distinct)

section \<open>Results of find and match hold no symbol twice\<close>

text \<open>
  A document \<^verbatim>\<open>c.php\<close> with \<^verbatim>\<open>namespace App\Apple;\<close>: the namespace is indexed under its
  full name and under its first segment, and the prefix \<^verbatim>\<open>ap\<close> matches both keys.
\<close>

definition ns_name :: string where
  "ns_name = ''App'' @ [backslash] @ ''Apple''"

definition ns_sym :: PhpSymbol where
  "ns_sym = node 31 Namespace ns_name {} None [] (at 3 1 0) []"

definition table_n :: SymbolTable where
  "table_n = \<lparr>uri = ''c.php'', root = node 30 File ''c.php'' {} None [] (at 3 0 0) [ns_sym]\<rparr>"

definition store_n :: SymbolStore where
  "store_n =
     \<lparr>tableIndex = [3 \<mapsto> table_n],
      symbolIndex = [(toLowerCase example_rt ns_name, [stub_at 3 1 0]), (''app'', [stub_at 3 1 0])],
      symbolCount = 1\<rparr>"

lemma add_table_n: "SymbolStore_add example_rt SymbolStore_new table_n = Inr store_n"
  by (simp add: store_defs example_defs store_n_def table_n_def ns_sym_def ns_name_def
      backslash_def)

lemmas match_defs = SymbolStore_match_def NameIndex_match_def startsWith_def
  indexResultToSymbols_def FindByStartPositionTraverser_find_def startsAt_def Set_add_def
  example_rt_def ascii_toLowerCase_def lower_char_def

text \<open>
  Claim C10. The list that \<open>find\<close> returns and the list that \<open>match\<close> returns hold no symbol
  twice, also when several matching keys lead to one symbol; and on a store whose index
  entries all name a registered table both return a list.
\<close>

theorem find_match_distinct:
  "(\<forall>rs. SymbolStore_find rt st text fltr = Inr rs \<longrightarrow> distinct rs)
   \<and> (\<forall>rs. SymbolStore_match rt st text fltr = Inr rs \<longrightarrow> distinct rs)
   \<and> (index_resolvable st \<longrightarrow>
        (\<exists>rs. SymbolStore_find rt st text fltr = Inr rs)
        \<and> (\<exists>rs. SymbolStore_match rt st text fltr = Inr rs))"
  using SymbolStore_find_distinct SymbolStore_match_distinct SymbolStore_find_total
    SymbolStore_match_total by blast

theorem find_match_distinct_witness:
  "index_resolvable store_n
   \<and> NameIndex_match example_rt (symbolIndex store_n) ''ap'' = [stub_at 3 1 0, stub_at 3 1 0]
   \<and> SymbolStore_match example_rt store_n ''ap'' None = Inr [ns_sym]
   \<and> SymbolStore_find example_rt store_n ns_name None = Inr [ns_sym]
   \<and> distinct [ns_sym]"
proof -
  have r: "index_resolvable store_n"
    by (simp add: index_resolvable_def store_n_def stub_at_def)
  have n: "NameIndex_match example_rt (symbolIndex store_n) ''ap'' = [stub_at 3 1 0, stub_at 3 1 0]"
    by (simp add: match_defs store_n_def ns_name_def backslash_def)
  have m: "SymbolStore_match example_rt store_n ''ap'' None = Inr [ns_sym]"
    by (simp add: match_defs example_defs store_n_def table_n_def ns_sym_def ns_name_def
        backslash_def)
  have f: "SymbolStore_find example_rt store_n ns_name None = Inr [ns_sym]"
    by (simp add: find_defs example_defs store_n_def table_n_def ns_sym_def ns_name_def
        backslash_def)
  from find_match_distinct [of example_rt store_n "''ap''" None] m have "distinct [ns_sym]" by blast
  with r n m f show ?thesis by blast
qed

section \<open>The closure of associated types\<close>

lemma getAssociated_loop_distinct:
  "getAssociated_loop rt st ex queue assoc = Inr r \<Longrightarrow> distinct assoc \<Longrightarrow> distinct r"
proof (induction rt st ex queue assoc rule: getAssociated_loop.induct)
  case (1 rt st ex assoc)
  then show ?case by simp
next
  case (2 rt st ex stub queue assoc)
  show ?case
  proof (cases "ex \<and> stub_kind stub = Trait")
    case True
    with 2 show ?thesis by simp
  next
    case False
    with "2.prems" obtain found where
      f: "SymbolStore_find rt st (stub_name stub) (Some isClassLike) = Inr found"
      by (auto split: sum.splits)
    show ?thesis
    proof (cases found)
      case Nil
      with 2 False f show ?thesis by simp
    next
      case (Cons s rest)
      show ?thesis
      proof (cases "s \<in> set assoc")
        case True
        with 2 False f Cons show ?thesis by simp
      next
        case notin: False
        with "2.prems" \<open>\<not> (ex \<and> stub_kind stub = Trait)\<close> f Cons
        have "getAssociated_loop rt st ex (queue @ associated (data s)) (assoc @ [s]) = Inr r"
          by simp
        moreover from notin "2.prems" have "distinct (assoc @ [s])" by simp
        ultimately show ?thesis
          using "2.IH"(4) [OF \<open>\<not> (ex \<and> stub_kind stub = Trait)\<close> f Cons notin] by blast
      qed
    qed
  qed
qed

lemma SymbolStore_find_error:
  "SymbolStore_find rt st text fltr = Inl e \<Longrightarrow> e = TypeError"
  using SymbolStore_find_char [of rt st "text" fltr] by (auto split: if_splits)

lemma getAssociated_loop_error:
  "getAssociated_loop rt st ex queue assoc = Inl e \<Longrightarrow> e = TypeError"
proof (induction rt st ex queue assoc rule: getAssociated_loop.induct)
  case (1 rt st ex assoc)
  then show ?case by simp
next
  case (2 rt st ex stub queue assoc)
  show ?case
  proof (cases "ex \<and> stub_kind stub = Trait")
    case True
    from "2.IH"(1) [OF True] "2.prems" True show ?thesis by auto
  next
    case False
    show ?thesis
    proof (cases "SymbolStore_find rt st (stub_name stub) (Some isClassLike)")
      case (Inl e')
      with "2.prems" False have "e = e'" by auto
      with Inl show ?thesis by (auto dest: SymbolStore_find_error)
    next
      case (Inr found)
      show ?thesis
      proof (cases found)
        case Nil
        from "2.IH"(2) [OF False Inr Nil] "2.prems" False Inr Nil show ?thesis by auto
      next
        case (Cons s rest)
        show ?thesis
        proof (cases "s \<in> set assoc")
          case True
          from "2.IH"(3) [OF False Inr Cons True] "2.prems" False Inr Cons True
          show ?thesis by auto
        next
          case notin: False
          from "2.IH"(4) [OF False Inr Cons notin] "2.prems" False Inr Cons notin
          show ?thesis by auto
        qed
      qed
    qed
  qed
qed

lemma getAssociated_loop_total:
  "index_resolvable st \<Longrightarrow> \<exists>r. getAssociated_loop rt st ex queue assoc = Inr r"
proof (induction rt st ex queue assoc rule: getAssociated_loop.induct)
  case (1 rt st ex assoc)
  then show ?case by simp
next
  case (2 rt st ex stub queue assoc)
  show ?case
  proof (cases "ex \<and> stub_kind stub = Trait")
    case True
    from "2.IH"(1) [OF True "2.prems"] True show ?thesis by auto
  next
    case False
    from SymbolStore_find_total [OF "2.prems"] obtain found where
      f: "SymbolStore_find rt st (stub_name stub) (Some isClassLike) = Inr found"
      by blast
    show ?thesis
    proof (cases found)
      case Nil
      from "2.IH"(2) [OF False f Nil "2.prems"] False f Nil show ?thesis by auto
    next
      case (Cons s rest)
      show ?thesis
      proof (cases "s \<in> set assoc")
        case True
        from "2.IH"(3) [OF False f Cons True "2.prems"] False f Cons True show ?thesis by auto
      next
        case notin: False
        from "2.IH"(4) [OF False f Cons notin "2.prems"] False f Cons notin
        show ?thesis by auto
      qed
    qed
  qed
qed

text \<open>
  A document \<^verbatim>\<open>c.php\<close> with a cyclic hierarchy: \<^verbatim>\<open>class A extends B\<close> and
  \<^verbatim>\<open>class B extends A\<close>.
\<close>

definition A_sym :: PhpSymbol where
  "A_sym = node 41 Class ''A'' {} None [\<lparr>stub_kind = Class, stub_name = ''B''\<rparr>] (at 3 1 0) []"

definition B_sym :: PhpSymbol where
  "B_sym = node 42 Class ''B'' {} None [\<lparr>stub_kind = Class, stub_name = ''A''\<rparr>] (at 3 2 0) []"

definition table_c :: SymbolTable where
  "table_c = \<lparr>uri = ''c.php'', root = node 40 File ''c.php'' {} None [] (at 3 0 0) [A_sym, B_sym]\<rparr>"

definition store_c :: SymbolStore where
  "store_c =
     \<lparr>tableIndex = [3 \<mapsto> table_c],
      symbolIndex = [(''a'', [stub_at 3 1 0]), (''b'', [stub_at 3 2 0])],
      symbolCount = 2\<rparr>"

lemma add_table_c: "SymbolStore_add example_rt SymbolStore_new table_c = Inr store_c"
  by (simp add: store_defs example_defs store_c_def table_c_def A_sym_def B_sym_def)

text \<open>
  Claim C7. \<open>getAssociated\<close> is a total function (its loop terminates on every store, cyclic
  hierarchies included); the list it returns, and the list \<open>associated\<close> filters from it,
  hold no symbol twice; on a store whose index entries all name a registered table it
  returns a list; and the only error it can end with is the TypeError of a lookup.
\<close>

theorem getAssociated_terminates_distinct:
  "(\<forall>xs. getAssociated rt ta = Inr xs \<longrightarrow> distinct xs)
   \<and> (\<forall>xs. TypeAggregate_associated rt ta fltr = Inr xs \<longrightarrow> distinct xs)
   \<and> (index_resolvable (symbolStore ta) \<longrightarrow>
        (\<exists>xs. getAssociated rt ta = Inr xs) \<and> (\<exists>xs. TypeAggregate_associated rt ta fltr = Inr xs))
   \<and> (\<forall>e. getAssociated rt ta = Inl e \<longrightarrow> e = TypeError)"
proof (intro conjI allI impI)
  fix e assume "getAssociated rt ta = Inl e"
  then show "e = TypeError"
    unfolding getAssociated_def by (rule getAssociated_loop_error)
next
  fix xs assume "getAssociated rt ta = Inr xs"
  then show "distinct xs"
    unfolding getAssociated_def by (rule getAssociated_loop_distinct) simp
next
  fix xs assume "TypeAggregate_associated rt ta fltr = Inr xs"
  then show "distinct xs"
    unfolding TypeAggregate_associated_def getAssociated_def
    by (auto split: sum.splits option.splits dest!: getAssociated_loop_distinct)
next
  assume "index_resolvable (symbolStore ta)"
  then show "\<exists>xs. getAssociated rt ta = Inr xs"
    unfolding getAssociated_def by (rule getAssociated_loop_total)
next
  assume "index_resolvable (symbolStore ta)"
  then obtain xs where "getAssociated rt ta = Inr xs"
    unfolding getAssociated_def using getAssociated_loop_total by blast
  then show "\<exists>xs. TypeAggregate_associated rt ta fltr = Inr xs"
    unfolding TypeAggregate_associated_def by (cases fltr) auto
qed

theorem getAssociated_terminates_distinct_witness:
  "index_resolvable store_c
   \<and> getAssociated example_rt \<lparr>symbolStore = store_c, symbol = A_sym, excludeTraits = False\<rparr>
       = Inr [B_sym, A_sym]
   \<and> distinct [B_sym, A_sym]"
proof -
  have r: "index_resolvable store_c"
    by (simp add: index_resolvable_def store_c_def stub_at_def)
  have g: "getAssociated example_rt \<lparr>symbolStore = store_c, symbol = A_sym, excludeTraits = False\<rparr>
       = Inr [B_sym, A_sym]"
    by (simp add: getAssociated_def find_defs isClassLike_def example_defs store_c_def
        table_c_def A_sym_def B_sym_def)
  from getAssociated_terminates_distinct
    [of example_rt "\<lparr>symbolStore = store_c, symbol = A_sym, excludeTraits = False\<rparr>" None] g
  have "distinct [B_sym, A_sym]" by blast
  with r g show ?thesis by blast
qed

section \<open>Construction of a type aggregate\<close>

lemma TypeAggregate_new_classLike:
  "isClassLike s \<Longrightarrow>
   TypeAggregate_new st (Some s) ex = Inr \<lparr>symbolStore = st, symbol = s, excludeTraits = ex\<rparr>"
  by (simp add: TypeAggregate_new_def)

lemma SymbolStore_find_passes:
  "SymbolStore_find rt st text (Some p) = Inr rs \<Longrightarrow> s \<in> set rs \<Longrightarrow> p s"
  by (auto simp: SymbolStore_find_def passes_def split: if_splits sum.splits)

text \<open>
  Claim C6. The constructor raises exactly when the symbol is absent or its kind is not
  Class, Interface or Trait, and the error is the invalid-argument error. The factory
  \<open>create\<close> never raises that error; on a store whose index entries all name a registered
  table it returns; and it returns none exactly when the name is empty or \<open>find\<close>, filtered
  to class-like kinds, finds no symbol of that name.
\<close>

theorem TypeAggregate_construction:
  "((\<exists>e. TypeAggregate_new st symb ex = Inl e)
      = (symb = None \<or> (\<exists>s. symb = Some s \<and> kind (data s) \<notin> {Class, Interface, Trait})))
   \<and> (\<forall>e. TypeAggregate_new st symb ex = Inl e \<longrightarrow> e = InvalidArgument)
   \<and> TypeAggregate_create rt st fqn \<noteq> Inl InvalidArgument
   \<and> (index_resolvable st \<longrightarrow> (\<exists>r. TypeAggregate_create rt st fqn = Inr r))
   \<and> ((TypeAggregate_create rt st fqn = Inr None)
        = (fqn = [] \<or> SymbolStore_find rt st fqn (Some isClassLike) = Inr []))"
proof (intro conjI allI impI)
  show "(\<exists>e. TypeAggregate_new st symb ex = Inl e)
      = (symb = None \<or> (\<exists>s. symb = Some s \<and> kind (data s) \<notin> {Class, Interface, Trait}))"
    by (cases symb) (auto simp: TypeAggregate_new_def isClassLike_def)
next
  fix e assume "TypeAggregate_new st symb ex = Inl e"
  then show "e = InvalidArgument"
    by (auto simp: TypeAggregate_new_def split: option.splits if_splits)
next
  show "TypeAggregate_create rt st fqn \<noteq> Inl InvalidArgument"
  proof (cases "SymbolStore_find rt st fqn (Some isClassLike)")
    case (Inl e)
    from SymbolStore_find_char [of rt st fqn "Some isClassLike"] Inl have "e = TypeError"
      by (auto split: if_splits)
    with Inl show ?thesis by (simp add: TypeAggregate_create_def)
  next
    case (Inr found)
    show ?thesis
    proof (cases found)
      case Nil
      with Inr show ?thesis by (simp add: TypeAggregate_create_def)
    next
      case (Cons s rest)
      with Inr have "isClassLike s" by (auto dest: SymbolStore_find_passes)
      with Inr Cons show ?thesis
        by (simp add: TypeAggregate_create_def TypeAggregate_new_classLike)
    qed
  qed
next
  assume "index_resolvable st"
  from SymbolStore_find_total [OF this] obtain found where
    f: "SymbolStore_find rt st fqn (Some isClassLike) = Inr found" by blast
  show "\<exists>r. TypeAggregate_create rt st fqn = Inr r"
  proof (cases found)
    case Nil
    with f show ?thesis by (simp add: TypeAggregate_create_def)
  next
    case (Cons s rest)
    with f have "isClassLike s" by (auto dest: SymbolStore_find_passes)
    with f Cons show ?thesis
      by (simp add: TypeAggregate_create_def TypeAggregate_new_classLike)
  qed
next
  show "(TypeAggregate_create rt st fqn = Inr None)
        = (fqn = [] \<or> SymbolStore_find rt st fqn (Some isClassLike) = Inr [])"
  proof (cases "SymbolStore_find rt st fqn (Some isClassLike)")
    case (Inl e)
    then have "fqn \<noteq> []" by (auto simp: SymbolStore_find_def)
    with Inl show ?thesis by (simp add: TypeAggregate_create_def)
  next
    case (Inr found)
    show ?thesis
    proof (cases found)
      case Nil
      with Inr show ?thesis by (simp add: TypeAggregate_create_def)
    next
      case (Cons s rest)
      with Inr have "isClassLike s" by (auto dest: SymbolStore_find_passes)
      moreover from Inr Cons have "fqn \<noteq> []" by (auto simp: SymbolStore_find_def)
      ultimately show ?thesis using Inr Cons
        by (simp add: TypeAggregate_create_def TypeAggregate_new_classLike)
    qed
  qed
qed

theorem TypeAggregate_construction_witness:
  "index_resolvable store_a
   \<and> TypeAggregate_create example_rt store_a ''C''
       = Inr (Some \<lparr>symbolStore = store_a, symbol = C_sym, excludeTraits = False\<rparr>)
   \<and> TypeAggregate_create example_rt store_a ''D'' = Inr None
   \<and> SymbolStore_find example_rt store_a ''D'' (Some isClassLike) = Inr []
   \<and> TypeAggregate_create example_rt store_a [] = Inr None
   \<and> TypeAggregate_new store_a (Some C_f) False = Inl InvalidArgument
   \<and> TypeAggregate_new store_a None False = Inl InvalidArgument"
proof -
  have r: "index_resolvable store_a"
    by (simp add: index_resolvable_def store_a_def stub_at_def)
  have c: "TypeAggregate_create example_rt store_a ''C''
       = Inr (Some \<lparr>symbolStore = store_a, symbol = C_sym, excludeTraits = False\<rparr>)"
    by (simp add: TypeAggregate_create_def TypeAggregate_new_def find_defs isClassLike_def
        example_defs store_a_def)
  have f: "SymbolStore_find example_rt store_a ''D'' (Some isClassLike) = Inr []"
    by (simp add: find_defs isClassLike_def example_defs store_a_def)
  from TypeAggregate_construction [of store_a None False example_rt "''D''"] f
  have d: "TypeAggregate_create example_rt store_a ''D'' = Inr None" by blast
  have e: "TypeAggregate_create example_rt store_a [] = Inr None"
    by (simp add: TypeAggregate_create_def)
  have n: "TypeAggregate_new store_a (Some C_f) False = Inl InvalidArgument"
    by (simp add: TypeAggregate_new_def isClassLike_def example_defs)
  have m: "TypeAggregate_new store_a None False = Inl InvalidArgument"
    by (simp add: TypeAggregate_new_def)
  from r c d f e n m show ?thesis by blast
qed

section \<open>Members of a class that implements an interface\<close>

definition isMethod :: "PhpSymbol \<Rightarrow> bool" where
  "isMethod s = (kind (data s) = Method)"

lemmas member_defs = findMembers_def atomicClassArray_def TypeAggregate_create_def
  TypeAggregate_new_def TypeAggregate_members_def getAssociated_def classMembers_def
  interfaceMembers_def traitMembers_def mergeMembers_def merge_replaces_def isClassLike_def

text \<open>
  Claim C8. In the store that indexes \<^verbatim>\<open>interface I { function f(); }\<close> and
  \<^verbatim>\<open>class C implements I { function f(){} function g(){} }\<close>, \<open>findMembers\<close> of \<^verbatim>\<open>C\<close> for
  methods returns the three entries \<open>f\<close> of \<open>C\<close>, \<open>g\<close> of \<open>C\<close> and \<open>f\<close> of \<open>I\<close> under the
  strategy None, and the two entries \<open>f\<close> of \<open>C\<close> and \<open>g\<close> of \<open>C\<close> under the strategy
  Override.
\<close>

theorem findMembers_class_implements_interface:
  "SymbolStore_add example_rt SymbolStore_new table_a = Inr store_a
   \<and> findMembers example_rt store_a ''C'' NoneStrategy (Some isMethod) = Inr [C_f, C_g, I_f]
   \<and> distinct [C_f, C_g, I_f]
   \<and> findMembers example_rt store_a ''C'' Override (Some isMethod) = Inr [C_f, C_g]"
proof -
  have n: "findMembers example_rt store_a ''C'' NoneStrategy (Some isMethod) = Inr [C_f, C_g, I_f]"
    by (simp add: member_defs find_defs isMethod_def example_defs store_a_def)
  have d: "distinct [C_f, C_g, I_f]"
    by (simp add: example_defs)
  have o: "findMembers example_rt store_a ''C'' Override (Some isMethod) = Inr [C_f, C_g]"
    by (simp add: member_defs find_defs isMethod_def example_defs store_a_def)
  from add_table_a n d o show ?thesis by blast
qed

section \<open>The running symbol count\<close>

text \<open>The sum of the symbol counts of the registered tables.\<close>

definition registered_symbolCount :: "SymbolStore \<Rightarrow> int" where
  "registered_symbolCount st =
     (\<Sum>h \<in> dom (tableIndex st). SymbolTable_symbolCount (the (tableIndex st h)))"

text \<open>
  The running count equals that sum, over finitely many tables: the empty store satisfies
  this, and \<open>add\<close> and \<open>remove\<close> preserve it.
\<close>

definition count_inv :: "SymbolStore \<Rightarrow> bool" where
  "count_inv st = (finite (dom (tableIndex st)) \<and> symbolCount st = registered_symbolCount st)"

lemma count_inv_new: "count_inv SymbolStore_new"
  by (simp add: count_inv_def registered_symbolCount_def SymbolStore_new_def)

lemma count_inv_remove:
  assumes "count_inv st" and "SymbolStore_remove rt st u = Inr st'"
  shows "count_inv st'"
proof (cases "tableIndex st (uriMap_id rt u)")
  case None
  with assms show ?thesis by (simp add: SymbolStore_remove_absent)
next
  case (Some T)
  let ?m = "tableIndex st" and ?id = "uriMap_id rt u"
  from assms(2) Some have t: "tableIndex st' = ?m(?id := None)"
    and c: "symbolCount st' = symbolCount st - SymbolTable_symbolCount T"
    by (auto simp: SymbolStore_remove_def split: sum.splits)
  from assms(1) have fin: "finite (dom ?m)" by (simp add: count_inv_def)
  from Some have "?id \<in> dom ?m" by auto
  with fin have "(\<Sum>h \<in> dom ?m. SymbolTable_symbolCount (the (?m h)))
      = SymbolTable_symbolCount T + (\<Sum>h \<in> dom ?m - {?id}. SymbolTable_symbolCount (the (?m h)))"
    using Some by (simp add: sum.remove)
  moreover have "(\<Sum>h \<in> dom ?m - {?id}. SymbolTable_symbolCount (the ((?m(?id := None)) h)))
      = (\<Sum>h \<in> dom ?m - {?id}. SymbolTable_symbolCount (the (?m h)))"
    by (rule sum.cong) auto
  ultimately show ?thesis
    using assms(1) fin by (simp add: count_inv_def registered_symbolCount_def t c)
qed

lemma count_inv_add:
  assumes "count_inv st" and "SymbolStore_add rt st T = Inr st'"
  shows "count_inv st'"
proof -
  let ?id = "uriMap_id rt (uri T)"
  from assms(2) obtain st1 where r: "SymbolStore_remove rt st (uri T) = Inr st1"
    and t: "tableIndex st' = (tableIndex st1)(?id \<mapsto> T)"
    and c: "symbolCount st' = symbolCount st1 + SymbolTable_symbolCount T"
    by (auto simp: SymbolStore_add_def Let_def split: sum.splits)
  let ?m = "tableIndex st1"
  from count_inv_remove [OF assms(1) r] have fin: "finite (dom ?m)"
    and c1: "symbolCount st1 = (\<Sum>h \<in> dom ?m. SymbolTable_symbolCount (the (?m h)))"
    by (simp_all add: count_inv_def registered_symbolCount_def)
  from r have notin: "?id \<notin> dom ?m" by (auto dest: SymbolStore_remove_unregisters)
  have "(\<Sum>h \<in> dom ?m. SymbolTable_symbolCount (the ((?m(?id \<mapsto> T)) h)))
      = (\<Sum>h \<in> dom ?m. SymbolTable_symbolCount (the (?m h)))"
    by (rule sum.cong) (use notin in auto)
  with fin notin show ?thesis
    by (simp add: count_inv_def registered_symbolCount_def t c c1)
qed

text \<open>
  A document \<^verbatim>\<open>d.php\<close> with \<^verbatim>\<open>function foo() { $x = 1; }\<close>: the function holds the
  variable as its child.
\<close>

definition foo_x :: PhpSymbol where
  "foo_x = node 62 Variable ''$x'' {} (Some ''foo'') [] (at 4 2 4) []"

definition foo_sym :: PhpSymbol where
  "foo_sym = node 61 Function ''foo'' {} None [] (at 4 1 0) [foo_x]"

definition table_f :: SymbolTable where
  "table_f = \<lparr>uri = ''d.php'', root = node 60 File ''d.php'' {} None [] (at 4 0 0) [foo_sym]\<rparr>"

definition store_f :: SymbolStore where
  "store_f =
     \<lparr>tableIndex = [4 \<mapsto> table_f], symbolIndex = [(''foo'', [stub_at 4 1 0])],
      symbolCount = 2\<rparr>"

lemma add_table_f: "SymbolStore_add example_rt SymbolStore_new table_f = Inr store_f"
  by (simp add: store_defs example_defs store_f_def table_f_def foo_sym_def foo_x_def)

text \<open>
  Claim C4, at the failing input. After \<open>add\<close> of the table of \<^verbatim>\<open>d.php\<close> to the empty store
  the running count and the sum over the registered tables are both 2. \<open>closeDocument\<close>
  prunes the registered table: the sum drops to 1 and the running count stays 2. \<open>remove\<close>
  then subtracts the pruned count, and the store without any table has the count 1.
\<close>

theorem symbolCount_drifts_after_prune:
  "SymbolStore_add example_rt SymbolStore_new table_f = Inr store_f
   \<and> symbolCount store_f = 2 \<and> registered_symbolCount store_f = 2
   \<and> symbolCount (closeDocument example_rt store_f ''d.php'') = 2
   \<and> registered_symbolCount (closeDocument example_rt store_f ''d.php'') = 1
   \<and> SymbolStore_remove example_rt (closeDocument example_rt store_f ''d.php'') ''d.php''
       = Inr \<lparr>tableIndex = Map.empty, symbolIndex = [(''foo'', [])], symbolCount = 1\<rparr>"
proof -
  have a: "symbolCount store_f = 2 \<and> registered_symbolCount store_f = 2"
    by (simp add: registered_symbolCount_def store_f_def table_f_def foo_sym_def foo_x_def
        node_def SymbolTable_symbolCount_def TreeTraverser_count_def)
  have c: "closeDocument example_rt store_f ''d.php''
      = \<lparr>tableIndex = [4 \<mapsto> table_f\<lparr>root := node 60 File ''d.php'' {} None [] (at 4 0 0)
              [node 61 Function ''foo'' {} None [] (at 4 1 0) []]\<rparr>],
         symbolIndex = [(''foo'', [stub_at 4 1 0])], symbolCount = 2\<rparr>"
    by (simp add: closeDocument_def getSymbolTable_def pruneScopedVars_def example_defs
        store_f_def table_f_def foo_sym_def foo_x_def)
  have b: "symbolCount (closeDocument example_rt store_f ''d.php'') = 2
   \<and> registered_symbolCount (closeDocument example_rt store_f ''d.php'') = 1"
    unfolding c
    by (simp add: registered_symbolCount_def table_f_def node_def SymbolTable_symbolCount_def
        TreeTraverser_count_def)
  have r: "SymbolStore_remove example_rt (closeDocument example_rt store_f ''d.php'') ''d.php''
       = Inr \<lparr>tableIndex = Map.empty, symbolIndex = [(''foo'', [])], symbolCount = 1\<rparr>"
    unfolding c by (simp add: store_defs example_defs table_f_def)
  from add_table_f a b r show ?thesis by blast
qed

section \<open>The base declaration of a member\<close>

text \<open>
  A document \<^verbatim>\<open>e.php\<close> with three classes: \<^verbatim>\<open>G\<close> declares the public methods \<^verbatim>\<open>foo\<close> and
  \<^verbatim>\<open>bar\<close>, \<^verbatim>\<open>P extends G\<close> overrides both, and \<^verbatim>\<open>Q extends P\<close> overrides both again,
  writing the first as \<^verbatim>\<open>Foo\<close> (method names of PHP are case-insensitive).
\<close>

definition G_foo :: PhpSymbol where
  "G_foo = node 72 Method ''foo'' {Public} (Some ''G'') [] (at 5 2 4) []"

definition G_bar :: PhpSymbol where
  "G_bar = node 73 Method ''bar'' {Public} (Some ''G'') [] (at 5 3 4) []"

definition G_sym :: PhpSymbol where
  "G_sym = node 71 Class ''G'' {} None [] (at 5 1 0) [G_foo, G_bar]"

definition P_foo :: PhpSymbol where
  "P_foo = node 75 Method ''foo'' {Public} (Some ''P'') [] (at 5 6 4) []"

definition P_bar :: PhpSymbol where
  "P_bar = node 76 Method ''bar'' {Public} (Some ''P'') [] (at 5 7 4) []"

definition P_sym :: PhpSymbol where
  "P_sym = node 74 Class ''P'' {} None [\<lparr>stub_kind = Class, stub_name = ''G''\<rparr>] (at 5 5 0)
     [P_foo, P_bar]"

definition Q_Foo :: PhpSymbol where
  "Q_Foo = node 78 Method ''Foo'' {Public} (Some ''Q'') [] (at 5 10 4) []"

definition Q_bar :: PhpSymbol where
  "Q_bar = node 79 Method ''bar'' {Public} (Some ''Q'') [] (at 5 11 4) []"

definition Q_sym :: PhpSymbol where
  "Q_sym = node 77 Class ''Q'' {} None [\<lparr>stub_kind = Class, stub_name = ''P''\<rparr>] (at 5 9 0)
     [Q_Foo, Q_bar]"

definition table_e :: SymbolTable where
  "table_e = \<lparr>uri = ''e.php'',
     root = node 70 File ''e.php'' {} None [] (at 5 0 0) [G_sym, P_sym, Q_sym]\<rparr>"

definition store_e :: SymbolStore where
  "store_e =
     \<lparr>tableIndex = [5 \<mapsto> table_e],
      symbolIndex = [(''g'', [stub_at 5 1 0]),
                     (''foo'', [stub_at 5 2 4, stub_at 5 6 4, stub_at 5 10 4]),
                     (''bar'', [stub_at 5 3 4, stub_at 5 7 4, stub_at 5 11 4]),
                     (''p'', [stub_at 5 5 0]), (''q'', [stub_at 5 9 0])],
      symbolCount = 9\<rparr>"

lemmas hierarchy_defs = G_foo_def G_bar_def G_sym_def P_foo_def P_bar_def P_sym_def Q_Foo_def
  Q_bar_def Q_sym_def table_e_def

lemma add_table_e: "SymbolStore_add example_rt SymbolStore_new table_e = Inr store_e"
  by (simp add: store_defs example_defs hierarchy_defs store_e_def)

text \<open>
  Claim C9, at the failing input. The closure of \<open>Q\<close> is \<open>P\<close>, \<open>G\<close>, and \<open>G\<close> declares
  \<^verbatim>\<open>foo\<close> with the kind and the modifiers of \<^verbatim>\<open>Foo\<close> of \<open>Q\<close>, so the predicate of
  \<open>findBaseMember\<close> accepts it. For \<^verbatim>\<open>bar\<close> of \<open>Q\<close> the result is the declaration of \<open>G\<close>, the
  top-most one. For \<^verbatim>\<open>Foo\<close> of \<open>Q\<close> the merge keeps two entries, one per spelling, and the
  result is \<^verbatim>\<open>Foo\<close> of \<open>Q\<close> itself.
\<close>

theorem findBaseMember_method_case:
  "SymbolStore_add example_rt SymbolStore_new table_e = Inr store_e
   \<and> getAssociated example_rt \<lparr>symbolStore = store_e, symbol = Q_sym, excludeTraits = False\<rparr>
       = Inr [P_sym, G_sym]
   \<and> G_foo \<in> set (children G_sym) \<and> baseMemberPredicate example_rt Q_Foo G_foo
   \<and> findBaseMember example_rt store_e (Some Q_bar) = Inr (Some G_bar)
   \<and> findMembers example_rt store_e ''Q'' Base (Some (baseMemberPredicate example_rt Q_Foo)) = Inr [Q_Foo, G_foo]
   \<and> findBaseMember example_rt store_e (Some Q_Foo) = Inr (Some Q_Foo)"
proof -
  have g: "getAssociated example_rt \<lparr>symbolStore = store_e, symbol = Q_sym, excludeTraits = False\<rparr>
       = Inr [P_sym, G_sym]"
    by (simp add: getAssociated_def find_defs isClassLike_def example_defs hierarchy_defs
        store_e_def)
  have p: "G_foo \<in> set (children G_sym) \<and> baseMemberPredicate example_rt Q_Foo G_foo"
    by (simp add: baseMemberPredicate_def ascii_toLowerCase_def lower_char_def example_defs
        hierarchy_defs)
  have b: "findBaseMember example_rt store_e (Some Q_bar) = Inr (Some G_bar)"
    by (simp add: findBaseMember_def baseMemberPredicate_def member_defs find_defs
        example_defs hierarchy_defs store_e_def)
  have m: "findMembers example_rt store_e ''Q'' Base (Some (baseMemberPredicate example_rt Q_Foo)) = Inr [Q_Foo, G_foo]"
    by (simp add: baseMemberPredicate_def member_defs find_defs example_defs hierarchy_defs
        store_e_def)
  have f: "findBaseMember example_rt store_e (Some Q_Foo) = Inr (Some Q_Foo)"
    by (simp add: findBaseMember_def baseMemberPredicate_def member_defs find_defs
        example_defs hierarchy_defs store_e_def)
  from add_table_e g p b m f show ?thesis by blast
qed

section \<open>The invariant of the store\<close>

text \<open>
  A table is well formed for the hash \<open>h\<close> when every node that the visitor indexes has a
  location, the location carries \<open>h\<close>, and the search by its start position finds the node
  itself. This is what the store expects of the symbol reader: a stub of the index resolves,
  by the search in its table, to the symbol it was made from.
\<close>

definition table_wf :: "nat \<Rightarrow> SymbolTable \<Rightarrow> bool" where
  "table_wf h T =
     (\<forall>n \<in> set (toArray (root T)). indexable n \<longrightarrow>
        (case location (data n) of
           None \<Rightarrow> False
         | Some l \<Rightarrow> loc_uriHash l = h
             \<and> FindByStartPositionTraverser_find (range_start (loc_range l)) (root T) = Some n))"

text \<open>The stubs that a table enters under a key.\<close>

definition table_entries :: "Runtime \<Rightarrow> SymbolTable \<Rightarrow> string \<Rightarrow> HashedStartLocation list" where
  "table_entries rt T k =
     concat (map node_stubs
       (filter (\<lambda>n. indexable n \<and> k \<in> set (KeyedHashedStartLocation_keys rt n))
          (toArray (root T))))"

text \<open>
  The invariant: finitely many tables are registered, each well formed for the hash it is
  registered under; the keys of the index are distinct; and the bucket of every key holds
  exactly the stubs that the registered tables enter under the key.
\<close>

definition store_inv :: "Runtime \<Rightarrow> SymbolStore \<Rightarrow> bool" where
  "store_inv rt st =
     (finite (dom (tableIndex st))
      \<and> distinct (map fst (symbolIndex st))
      \<and> (\<forall>h T. tableIndex st h = Some T \<longrightarrow> table_wf h T)
      \<and> (\<forall>k. mset (bucket (symbolIndex st) k)
              = (\<Sum>h \<in> dom (tableIndex st). mset (table_entries rt (the (tableIndex st h)) k))))"


lemma IndexableSymbolVisitor_items_total:
  "(\<forall>n \<in> set nodes. indexable n \<longrightarrow> location (data n) \<noteq> None) \<Longrightarrow>
   \<exists>items. IndexableSymbolVisitor_items rt nodes = Inr items"
  by (induction nodes) (auto simp: KeyedHashedStartLocation_create_def)

lemma table_wf_indexItems:
  assumes "table_wf h T"
  obtains items where "SymbolTable_indexItems rt T = Inr items"
    and "\<And>k. entries_at k items = table_entries rt T k"
proof -
  from assms have "\<forall>n \<in> set (toArray (root T)). indexable n \<longrightarrow> location (data n) \<noteq> None"
    by (auto simp: table_wf_def split: option.splits)
  from IndexableSymbolVisitor_items_total [OF this] obtain items where
    i: "IndexableSymbolVisitor_items rt (toArray (root T)) = Inr items" by blast
  from IndexableSymbolVisitor_items_entries [OF i]
  have "entries_at k items = table_entries rt T k" for k
    by (simp add: table_entries_def)
  with i that show thesis by (simp add: SymbolTable_indexItems_def)
qed

lemma map_fst_add_key:
  assumes "distinct (map fst idx)"
  shows "distinct (map fst (NameIndex_add_key item k idx))"
proof (cases "map_of idx k")
  case None
  then have "k \<notin> fst ` set idx" by (simp add: map_of_eq_None_iff)
  with None assms show ?thesis by (simp add: NameIndex_add_key_def)
next
  case (Some b)
  with assms show ?thesis by (simp add: NameIndex_add_key_def distinct_update)
qed

lemma map_fst_remove_key:
  "distinct (map fst idx) \<Longrightarrow> distinct (map fst (NameIndex_remove_key item k idx))"
  by (cases "map_of idx k") (auto simp: NameIndex_remove_key_def distinct_update)

lemma distinct_addItems:
  "distinct (map fst idx) \<Longrightarrow> distinct (map fst (index_addItems items idx))"
proof (induction items arbitrary: idx)
  case Nil
  then show ?case by (simp add: index_addItems_def)
next
  case (Cons it items)
  have "distinct (map fst (NameIndex_add item ks idx'))" if "distinct (map fst idx')"
    for item ks idx'
    using that unfolding NameIndex_add_def
    by (induction ks arbitrary: idx') (auto intro: map_fst_add_key)
  with Cons show ?case by (simp add: index_addItems_def)
qed

lemma distinct_removeItems:
  "distinct (map fst idx) \<Longrightarrow> distinct (map fst (index_removeItems items idx))"
proof (induction items arbitrary: idx)
  case Nil
  then show ?case by (simp add: index_removeItems_def)
next
  case (Cons it items)
  have "distinct (map fst (NameIndex_remove item ks idx'))" if "distinct (map fst idx')"
    for item ks idx'
    using that unfolding NameIndex_remove_def
    by (induction ks arbitrary: idx') (auto intro: map_fst_remove_key)
  with Cons show ?case by (simp add: index_removeItems_def)
qed

lemma store_inv_new: "store_inv rt SymbolStore_new"
  by (simp add: store_inv_def SymbolStore_new_def bucket_def)

lemma store_inv_remove:
  assumes "store_inv rt st"
  shows "\<exists>st'. SymbolStore_remove rt st u = Inr st' \<and> store_inv rt st'"
proof (cases "tableIndex st (uriMap_id rt u)")
  case None
  with assms show ?thesis by (simp add: SymbolStore_remove_absent)
next
  case (Some T)
  let ?m = "tableIndex st" and ?id = "uriMap_id rt u"
  from assms Some have wf: "table_wf ?id T" by (simp add: store_inv_def)
  from table_wf_indexItems [OF wf] obtain items where
    it: "SymbolTable_indexItems rt T = Inr items"
    and en: "\<And>k. entries_at k items = table_entries rt T k" by blast
  define st' where "st' = \<lparr>tableIndex = ?m(?id := None),
      symbolIndex = index_removeItems items (symbolIndex st),
      symbolCount = symbolCount st - SymbolTable_symbolCount T\<rparr>"
  have r: "SymbolStore_remove rt st u = Inr st'"
    using Some it by (simp add: SymbolStore_remove_def st'_def)
  from assms have fin: "finite (dom ?m)" by (simp add: store_inv_def)
  have d: "dom (tableIndex st') = dom ?m - {?id}" by (auto simp: st'_def)
  have b: "mset (bucket (symbolIndex st') k)
      = (\<Sum>h \<in> dom (tableIndex st'). mset (table_entries rt (the (tableIndex st' h)) k))" for k
  proof -
    from Some have "?id \<in> dom ?m" by auto
    with fin have "(\<Sum>h \<in> dom ?m. mset (table_entries rt (the (?m h)) k))
        = mset (table_entries rt T k) + (\<Sum>h \<in> dom ?m - {?id}. mset (table_entries rt (the (?m h)) k))"
      using Some by (simp add: sum.remove)
    moreover have "(\<Sum>h \<in> dom ?m - {?id}. mset (table_entries rt (the (tableIndex st' h)) k))
        = (\<Sum>h \<in> dom ?m - {?id}. mset (table_entries rt (the (?m h)) k))"
      by (rule sum.cong) (auto simp: st'_def)
    moreover from assms have "mset (bucket (symbolIndex st) k)
        = (\<Sum>h \<in> dom ?m. mset (table_entries rt (the (?m h)) k))"
      by (simp add: store_inv_def)
    ultimately show ?thesis
      by (simp add: d st'_def mset_bucket_removeItems en)
  qed
  have "store_inv rt st'"
    unfolding store_inv_def
  proof (intro conjI allI impI)
    show "finite (dom (tableIndex st'))" using fin by (simp add: d)
    show "distinct (map fst (symbolIndex st'))"
      using assms by (simp add: st'_def store_inv_def distinct_removeItems)
    show "table_wf h T'" if "tableIndex st' h = Some T'" for h T'
      using that assms by (auto simp: st'_def store_inv_def split: if_splits)
    show "mset (bucket (symbolIndex st') k)
      = (\<Sum>h \<in> dom (tableIndex st'). mset (table_entries rt (the (tableIndex st' h)) k))" for k
      by (rule b)
  qed
  with r show ?thesis by blast
qed

lemma store_inv_add:
  assumes "store_inv rt st" and wf: "table_wf (uriMap_id rt (uri T)) T"
  shows "\<exists>st'. SymbolStore_add rt st T = Inr st' \<and> store_inv rt st'"
proof -
  let ?id = "uriMap_id rt (uri T)"
  from store_inv_remove [OF assms(1)] obtain st1 where
    r: "SymbolStore_remove rt st (uri T) = Inr st1" and inv1: "store_inv rt st1" by blast
  from r have none: "tableIndex st1 ?id = None" by (rule SymbolStore_remove_unregisters)
  let ?m = "tableIndex st1"
  from table_wf_indexItems [OF wf] obtain items where
    it: "SymbolTable_indexItems rt T = Inr items"
    and en: "\<And>k. entries_at k items = table_entries rt T k" by blast
  define st' where "st' = \<lparr>tableIndex = ?m(?id \<mapsto> T),
      symbolIndex = index_addItems items (symbolIndex st1),
      symbolCount = symbolCount st1 + SymbolTable_symbolCount T\<rparr>"
  have a: "SymbolStore_add rt st T = Inr st'"
    using r it by (simp add: SymbolStore_add_def st'_def)
  from inv1 have fin: "finite (dom ?m)" by (simp add: store_inv_def)
  have d: "dom (tableIndex st') = insert ?id (dom ?m)" by (auto simp: st'_def)
  have b: "mset (bucket (symbolIndex st') k)
      = (\<Sum>h \<in> dom (tableIndex st'). mset (table_entries rt (the (tableIndex st' h)) k))" for k
  proof -
    from none have notin: "?id \<notin> dom ?m" by auto
    have "(\<Sum>h \<in> dom ?m. mset (table_entries rt (the (tableIndex st' h)) k))
        = (\<Sum>h \<in> dom ?m. mset (table_entries rt (the (?m h)) k))"
      by (rule sum.cong) (use notin in \<open>auto simp: st'_def\<close>)
    moreover from inv1 have "mset (bucket (symbolIndex st1) k)
        = (\<Sum>h \<in> dom ?m. mset (table_entries rt (the (?m h)) k))"
      by (simp add: store_inv_def)
    ultimately show ?thesis
      using fin notin by (simp add: d bucket_addItems en st'_def)
  qed
  have "store_inv rt st'"
    unfolding store_inv_def
  proof (intro conjI allI impI)
    show "finite (dom (tableIndex st'))" using fin by (simp add: d)
    show "distinct (map fst (symbolIndex st'))"
      using inv1 by (simp add: st'_def store_inv_def distinct_addItems)
    show "table_wf h T'" if "tableIndex st' h = Some T'" for h T'
      using that inv1 wf by (auto simp: st'_def store_inv_def split: if_splits)
    show "mset (bucket (symbolIndex st') k)
      = (\<Sum>h \<in> dom (tableIndex st'). mset (table_entries rt (the (tableIndex st' h)) k))" for k
      by (rule b)
  qed
  with a show ?thesis by blast
qed

section \<open>Pruning a registered table and the reachable stores\<close>

text \<open>
  A tree is safe to prune when no Variable that the prune drops (a Variable child of a
  function or method) has, in its subtree, a node that the visitor indexes. The symbol reader
  gives Variables no children, so its trees are safe.
\<close>

fun prune_safe :: "PhpSymbol \<Rightarrow> bool" where
  "prune_safe (PhpSymbol d cs) =
     ((kind d = Function \<or> kind d = Method \<longrightarrow>
        (\<forall>c \<in> set cs. kind (data c) = Variable \<longrightarrow> (\<forall>n \<in> set (toArray c). \<not> indexable n)))
      \<and> (\<forall>c \<in> set cs. prune_safe c))"

text \<open>The children that \<^verbatim>\<open>ScopedVariablePruneVisitor\<close> keeps at a node.\<close>

definition kept :: "SymbolData \<Rightarrow> PhpSymbol list \<Rightarrow> PhpSymbol list" where
  "kept d cs = (if kind d = Function \<or> kind d = Method
     then filter (\<lambda>s. kind (data s) \<noteq> Variable) cs else cs)"

lemma prune_unfold:
  "ScopedVariablePruneVisitor (PhpSymbol d cs) =
     PhpSymbol d (map ScopedVariablePruneVisitor (kept d cs))"
  by (simp add: kept_def)

lemma data_prune [simp]: "data (ScopedVariablePruneVisitor n) = data n"
  by (cases n) simp

lemma kept_subset: "set (kept d cs) \<subseteq> set cs"
  by (auto simp: kept_def)

lemma concat_map_filter_empty:
  "(\<forall>c \<in> set cs. \<not> K c \<longrightarrow> f c = []) \<Longrightarrow> concat (map f (filter K cs)) = concat (map f cs)"
  by (induction cs) auto

lemma filter_toArray_prune:
  assumes q: "\<And>n. Q n \<Longrightarrow> indexable n" and dq: "\<And>n. Q (ScopedVariablePruneVisitor n) = Q n"
  shows "prune_safe r \<Longrightarrow>
    filter Q (toArray (ScopedVariablePruneVisitor r)) = map ScopedVariablePruneVisitor (filter Q (toArray r))"
proof (induction r)
  case (PhpSymbol d cs)
  let ?pr = ScopedVariablePruneVisitor
  have ih: "filter Q (toArray (?pr c)) = map ?pr (filter Q (toArray c))" if "c \<in> set cs" for c
    using PhpSymbol.IH [OF that] PhpSymbol.prems that by simp
  have dropped: "filter Q (toArray c) = []" if "c \<in> set cs" "c \<notin> set (kept d cs)" for c
  proof -
    from that have "kind d = Function \<or> kind d = Method" "kind (data c) = Variable"
      by (auto simp: kept_def split: if_splits)
    with PhpSymbol.prems that(1) have "\<forall>n \<in> set (toArray c). \<not> indexable n" by auto
    with q show ?thesis by (auto simp: filter_empty_conv)
  qed
  have "concat (map (\<lambda>c. filter Q (toArray (?pr c))) (kept d cs))
      = concat (map (\<lambda>c. map ?pr (filter Q (toArray c))) (kept d cs))"
    using ih kept_subset [of d cs] by (intro arg_cong [where f = concat] map_cong) auto
  also have "\<dots> = concat (map (\<lambda>c. map ?pr (filter Q (toArray c))) cs)"
  proof (cases "kind d = Function \<or> kind d = Method")
    case True
    have "concat (map (\<lambda>c. map ?pr (filter Q (toArray c))) (filter (\<lambda>s. kind (data s) \<noteq> Variable) cs))
       = concat (map (\<lambda>c. map ?pr (filter Q (toArray c))) cs)"
    proof (rule concat_map_filter_empty, intro ballI impI)
      fix c assume "c \<in> set cs" "\<not> kind (data c) \<noteq> Variable"
      with True have "c \<notin> set (kept d cs)" by (simp add: kept_def)
      with \<open>c \<in> set cs\<close> dropped show "map ?pr (filter Q (toArray c)) = []" by simp
    qed
    with True show ?thesis by (simp add: kept_def)
  next
    case False
    then show ?thesis by (simp add: kept_def)
  qed
  finally have c: "concat (map (\<lambda>c. filter Q (toArray (?pr c))) (kept d cs))
      = concat (map (\<lambda>c. map ?pr (filter Q (toArray c))) cs)" .
  have r: "Q (PhpSymbol d (map ?pr (kept d cs))) = Q (PhpSymbol d cs)"
    using dq [of "PhpSymbol d cs"] by (simp only: prune_unfold)
  show ?case
    using c r
    by (simp add: prune_unfold filter_concat map_concat comp_def
        del: ScopedVariablePruneVisitor.simps)
qed


lemma find_append:
  "List.find P (xs @ ys) = (case List.find P xs of None \<Rightarrow> List.find P ys | Some x \<Rightarrow> Some x)"
  by (induction xs) auto

lemma toArray_prune_subset:
  "set (toArray (ScopedVariablePruneVisitor r)) \<subseteq> ScopedVariablePruneVisitor ` set (toArray r)"
proof (induction r)
  case (PhpSymbol d cs)
  let ?pr = ScopedVariablePruneVisitor
  have ih: "set (toArray (?pr c)) \<subseteq> ?pr ` set (toArray c)" if "c \<in> set (kept d cs)" for c
    using PhpSymbol.IH [of c] that kept_subset [of d cs] by auto
  have 1: "set (toArray (PhpSymbol d (map ?pr (kept d cs))))
      = insert (PhpSymbol d (map ?pr (kept d cs))) (\<Union>c \<in> set (kept d cs). set (toArray (?pr c)))"
    by simp
  have 2: "?pr ` set (toArray (PhpSymbol d cs))
      = insert (?pr (PhpSymbol d cs)) (\<Union>c \<in> set cs. ?pr ` set (toArray c))"
    by (simp add: image_UN del: ScopedVariablePruneVisitor.simps)
  have 3: "(\<Union>c \<in> set (kept d cs). set (toArray (?pr c))) \<subseteq> (\<Union>c \<in> set cs. ?pr ` set (toArray c))"
    using ih kept_subset [of d cs] by blast
  show ?case
    unfolding prune_unfold 1 unfolding 2 prune_unfold using 3 by blast
qed

lemma find_prune_None:
  assumes dp: "\<And>n. P (ScopedVariablePruneVisitor n) = P n"
    and "List.find P (toArray r) = None"
  shows "List.find P (toArray (ScopedVariablePruneVisitor r)) = None"
  using assms(2) toArray_prune_subset [of r] dp
  by (auto simp: find_None_iff)

lemma find_prune_forest:
  assumes dp: "\<And>n. P (ScopedVariablePruneVisitor n) = P n"
    and ih: "\<And>c m. c \<in> set cs \<Longrightarrow> List.find P (toArray c) = Some m \<Longrightarrow> indexable m \<Longrightarrow>
          List.find P (toArray (ScopedVariablePruneVisitor c)) = Some (ScopedVariablePruneVisitor m)"
    and dropped: "\<And>c m. c \<in> set cs \<Longrightarrow> \<not> K c \<Longrightarrow> m \<in> set (toArray c) \<Longrightarrow> \<not> indexable m"
    and f: "List.find P (concat (map toArray cs)) = Some n" and n: "indexable n"
  shows "List.find P (concat (map (\<lambda>c. toArray (ScopedVariablePruneVisitor c)) (filter K cs)))
      = Some (ScopedVariablePruneVisitor n)"
  using ih dropped f
proof (induction cs)
  case Nil
  then show ?case by simp
next
  case (Cons c cs)
  show ?case
  proof (cases "List.find P (toArray c)")
    case None
    with Cons.prems(3) have rest: "List.find P (concat (map toArray cs)) = Some n"
      by (simp add: find_append)
    have ih': "List.find P (concat (map (\<lambda>c. toArray (ScopedVariablePruneVisitor c)) (filter K cs)))
      = Some (ScopedVariablePruneVisitor n)"
      using Cons.prems(1,2) rest by (intro Cons.IH) auto
    from find_prune_None [OF dp None]
    have "List.find P (toArray (ScopedVariablePruneVisitor c)) = None" .
    with ih' show ?thesis by (simp add: find_append)
  next
    case (Some m)
    with Cons.prems(3) have mn: "m = n" by (simp add: find_append)
    with Some have "n \<in> set (toArray c)" by (auto simp: find_Some_iff in_set_conv_nth)
    with Cons.prems(2) [of c n] n have k: "K c" by auto
    from Cons.prems(1) [of c m] Some mn n
    have "List.find P (toArray (ScopedVariablePruneVisitor c)) = Some (ScopedVariablePruneVisitor n)"
      by simp
    with k show ?thesis by (simp add: find_append)
  qed
qed

lemma find_prune:
  assumes dp: "\<And>n. P (ScopedVariablePruneVisitor n) = P n"
  shows "prune_safe r \<Longrightarrow> List.find P (toArray r) = Some n \<Longrightarrow> indexable n \<Longrightarrow>
    List.find P (toArray (ScopedVariablePruneVisitor r)) = Some (ScopedVariablePruneVisitor n)"
proof (induction r arbitrary: n)
  case (PhpSymbol d cs)
  let ?pr = ScopedVariablePruneVisitor
  let ?r = "PhpSymbol d cs"
  show ?case
  proof (cases "P ?r")
    case True
    with PhpSymbol.prems(2) have "n = ?r" by simp
    moreover from True dp [of ?r] have "P (?pr ?r)" by simp
    ultimately show ?thesis
      by (simp add: prune_unfold del: ScopedVariablePruneVisitor.simps)
  next
    case False
    with PhpSymbol.prems(2) have f: "List.find P (concat (map toArray cs)) = Some n" by simp
    have np: "\<not> P (PhpSymbol d (map ?pr (kept d cs)))"
      using False dp [of ?r] unfolding prune_unfold by blast
    define K where "K = (\<lambda>s. kind d = Function \<or> kind d = Method \<longrightarrow> kind (data s) \<noteq> Variable)"
    have kept: "kept d cs = filter K cs" by (auto simp: kept_def K_def)
    have "List.find P (concat (map (\<lambda>c. toArray (?pr c)) (filter K cs))) = Some (?pr n)"
    proof (rule find_prune_forest [OF dp _ _ f PhpSymbol.prems(3)])
      fix c m assume "c \<in> set cs" "List.find P (toArray c) = Some m" "indexable m"
      with PhpSymbol.IH [of c m] PhpSymbol.prems(1)
      show "List.find P (toArray (?pr c)) = Some (?pr m)" by simp
    next
      fix c m assume "c \<in> set cs" "\<not> K c" "m \<in> set (toArray c)"
      with PhpSymbol.prems(1) show "\<not> indexable m" by (auto simp: K_def)
    qed
    with np show ?thesis
      by (simp add: prune_unfold kept comp_def del: ScopedVariablePruneVisitor.simps)
  qed
qed

lemma prune_safe_prune: "prune_safe (ScopedVariablePruneVisitor r)"
proof (induction r)
  case (PhpSymbol d cs)
  then show ?case
    using kept_subset [of d cs]
    by (auto simp: prune_unfold kept_def simp del: ScopedVariablePruneVisitor.simps)
qed

lemma indexable_prune [simp]: "indexable (ScopedVariablePruneVisitor n) = indexable n"
  by (simp add: indexable_def)

lemma keys_prune [simp]:
  "KeyedHashedStartLocation_keys rt (ScopedVariablePruneVisitor n) = KeyedHashedStartLocation_keys rt n"
  by (simp add: KeyedHashedStartLocation_keys_def PhpSymbol_keys_def)

lemma node_stubs_prune [simp]: "node_stubs (ScopedVariablePruneVisitor n) = node_stubs n"
  by (simp add: node_stubs_def)

lemma startsAt_prune [simp]: "startsAt pos (ScopedVariablePruneVisitor n) = startsAt pos n"
  by (simp add: startsAt_def)

lemma table_entries_prune:
  assumes "prune_safe (root T)"
  shows "table_entries rt (pruneScopedVars T) k = table_entries rt T k"
proof -
  let ?Q = "\<lambda>n. indexable n \<and> k \<in> set (KeyedHashedStartLocation_keys rt n)"
  have "filter ?Q (toArray (ScopedVariablePruneVisitor (root T)))
      = map ScopedVariablePruneVisitor (filter ?Q (toArray (root T)))"
    by (rule filter_toArray_prune [OF _ _ assms]) simp_all
  then show ?thesis
    by (simp add: table_entries_def pruneScopedVars_def comp_def)
qed

lemma table_wf_prune:
  assumes wf: "table_wf h T" and safe: "prune_safe (root T)"
  shows "table_wf h (pruneScopedVars T)"
  unfolding table_wf_def
proof (intro ballI impI)
  let ?pr = ScopedVariablePruneVisitor
  fix n' assume n': "n' \<in> set (toArray (root (pruneScopedVars T)))" and i: "indexable n'"
  have "filter indexable (toArray (?pr (root T))) = map ?pr (filter indexable (toArray (root T)))"
    by (rule filter_toArray_prune [OF _ _ safe]) simp_all
  moreover from n' i have "n' \<in> set (filter indexable (toArray (?pr (root T))))"
    by (simp add: pruneScopedVars_def)
  ultimately obtain n where n: "n \<in> set (toArray (root T))" "indexable n" and e: "n' = ?pr n"
    by auto
  from wf n obtain l where l: "location (data n) = Some l" and h: "loc_uriHash l = h"
    and f: "FindByStartPositionTraverser_find (range_start (loc_range l)) (root T) = Some n"
    by (auto simp: table_wf_def split: option.splits)
  from f have "List.find (startsAt (range_start (loc_range l))) (toArray (?pr (root T))) = Some (?pr n)"
    unfolding FindByStartPositionTraverser_find_def
    by (intro find_prune [OF _ safe _ n(2)]) simp_all
  with l h e show "case location (data n') of None \<Rightarrow> False
      | Some l \<Rightarrow> loc_uriHash l = h
          \<and> FindByStartPositionTraverser_find (range_start (loc_range l)) (root (pruneScopedVars T))
              = Some n'"
    by (simp add: FindByStartPositionTraverser_find_def pruneScopedVars_def)
qed

lemma store_inv_closeDocument:
  assumes inv: "store_inv rt st"
    and safe: "\<And>T. tableIndex st (uriMap_id rt u) = Some T \<Longrightarrow> prune_safe (root T)"
  shows "store_inv rt (closeDocument rt st u)"
proof (cases "tableIndex st (uriMap_id rt u)")
  case None
  with inv show ?thesis by (simp add: closeDocument_def getSymbolTable_def)
next
  case (Some T)
  let ?m = "tableIndex st" and ?id = "uriMap_id rt u"
  let ?st' = "closeDocument rt st u"
  have st': "?st' = st\<lparr>tableIndex := ?m(?id \<mapsto> pruneScopedVars T)\<rparr>"
    using Some by (simp add: closeDocument_def getSymbolTable_def)
  have d: "dom (tableIndex ?st') = dom ?m" using Some by (auto simp: st')
  have e: "table_entries rt (the (tableIndex ?st' h)) k = table_entries rt (the (?m h)) k" for h k
    using Some table_entries_prune [OF safe [OF Some]] by (simp add: st')
  show ?thesis
    unfolding store_inv_def
  proof (intro conjI allI impI)
    show "finite (dom (tableIndex ?st'))" using inv by (simp add: d store_inv_def)
    show "distinct (map fst (symbolIndex ?st'))" using inv by (simp add: st' store_inv_def)
    show "table_wf h T'" if "tableIndex ?st' h = Some T'" for h T'
      using that inv Some table_wf_prune [OF _ safe [OF Some]]
      by (auto simp: st' store_inv_def split: if_splits)
    show "mset (bucket (symbolIndex ?st') k)
      = (\<Sum>h \<in> dom (tableIndex ?st'). mset (table_entries rt (the (tableIndex ?st' h)) k))" for k
      using inv by (simp add: d e) (simp add: st' store_inv_def)
  qed
qed

text \<open>
  The stores reachable from the empty store by \<open>add\<close> of a table that is well formed and
  safe to prune, by \<open>remove\<close> and by \<open>closeDocument\<close>. They all satisfy the invariant.
\<close>

inductive reachable :: "Runtime \<Rightarrow> SymbolStore \<Rightarrow> bool" for rt where
  reachable_new: "reachable rt SymbolStore_new"
| reachable_add:
    "reachable rt st \<Longrightarrow> table_wf (uriMap_id rt (uri T)) T \<Longrightarrow> prune_safe (root T) \<Longrightarrow>
     SymbolStore_add rt st T = Inr st' \<Longrightarrow> reachable rt st'"
| reachable_remove:
    "reachable rt st \<Longrightarrow> SymbolStore_remove rt st u = Inr st' \<Longrightarrow> reachable rt st'"
| reachable_closeDocument:
    "reachable rt st \<Longrightarrow> reachable rt (closeDocument rt st u)"

lemma SymbolStore_remove_tables:
  "SymbolStore_remove rt st u = Inr st' \<Longrightarrow> tableIndex st' h = Some T \<Longrightarrow> tableIndex st h = Some T"
  by (auto simp: SymbolStore_remove_def Let_def split: option.splits sum.splits if_splits)

lemma SymbolStore_add_tables:
  "SymbolStore_add rt st T = Inr st' \<Longrightarrow> tableIndex st' h = Some T' \<Longrightarrow>
   T' = T \<or> tableIndex st h = Some T'"
  by (auto simp: SymbolStore_add_def Let_def split: sum.splits if_splits
      dest: SymbolStore_remove_tables)

lemma reachable_store_inv:
  "reachable rt st \<Longrightarrow>
   store_inv rt st \<and> (\<forall>h T. tableIndex st h = Some T \<longrightarrow> prune_safe (root T))"
proof (induction rule: reachable.induct)
  case reachable_new
  then show ?case by (simp add: store_inv_new) (simp add: SymbolStore_new_def)
next
  case (reachable_add st T st')
  from store_inv_add [where rt = rt and T = T] reachable_add
  have "store_inv rt st'" by fastforce
  moreover have "prune_safe (root T')" if "tableIndex st' h = Some T'" for h T'
    using SymbolStore_add_tables [OF reachable_add.hyps(4) that] reachable_add by auto
  ultimately show ?case by blast
next
  case (reachable_remove st u st')
  from store_inv_remove [where rt = rt and u = u] reachable_remove
  have "store_inv rt st'" by fastforce
  moreover have "prune_safe (root T')" if "tableIndex st' h = Some T'" for h T'
    using SymbolStore_remove_tables [OF reachable_remove.hyps(2) that] reachable_remove by auto
  ultimately show ?case by blast
next
  case (reachable_closeDocument st u)
  then have "store_inv rt (closeDocument rt st u)"
    by (intro store_inv_closeDocument) auto
  moreover have "prune_safe (root T')" if "tableIndex (closeDocument rt st u) h = Some T'" for h T'
    using that reachable_closeDocument prune_safe_prune
    by (auto simp: closeDocument_def getSymbolTable_def pruneScopedVars_def
        split: option.splits if_splits)
  ultimately show ?case by blast
qed

section \<open>What find returns\<close>
























end
